theory Spec2Isabelle
  imports Complex_Main "HOL-Library.Word"
begin

section \<open>Value types used by the draw pool\<close>

text \<open>
  Modelled from the spec: the geometry primitives (point, size, rect) and the colour
  are pre-existing value types of the framework whose headers are not part of
  \<^verbatim>\<open>src/\<close>. A point is a pair of integers and the default-constructed point is
  the null point. A rect is given by its two corners; it is valid when it spans at
  least one pixel and empty otherwise, and the default-constructed rect is empty.
  A colour is its packed rgba value and white is the default colour.
\<close>

record Point =
  pt_x :: int
  pt_y :: int

definition Point_default :: Point where
  "Point_default = \<lparr>pt_x = 0, pt_y = 0\<rparr>"

definition point_isNull :: "Point \<Rightarrow> bool" where
  "point_isNull p = (pt_x p = 0 \<and> pt_y p = 0)"

record Size =
  sz_width :: int
  sz_height :: int

record Rect =
  r_x1 :: int
  r_y1 :: int
  r_x2 :: int
  r_y2 :: int

definition Rect_default :: Rect where
  "Rect_default = \<lparr>r_x1 = 0, r_y1 = 0, r_x2 = - 1, r_y2 = - 1\<rparr>"

definition Rect_of :: "Point \<Rightarrow> Size \<Rightarrow> Rect" where
  "Rect_of p sz = \<lparr>r_x1 = pt_x p, r_y1 = pt_y p,
                   r_x2 = pt_x p + sz_width sz - 1, r_y2 = pt_y p + sz_height sz - 1\<rparr>"

definition rect_isEmpty :: "Rect \<Rightarrow> bool" where
  "rect_isEmpty r = (r_x1 r > r_x2 r \<or> r_y1 r > r_y2 r)"

definition rect_isValid :: "Rect \<Rightarrow> bool" where
  "rect_isValid r = (r_x1 r \<le> r_x2 r \<and> r_y1 r \<le> r_y2 r)"

type_synonym Color = "32 word"

definition Color_white :: Color where
  "Color_white = 0xFFFFFFFF"

type_synonym size_t = "64 word"

text \<open>
  Pointers are handles: a texture pointer and a shader pointer are \<open>nat option\<close>,
  \<open>None\<close> being the null pointer. Two texture pointers are equal when they are the
  same handle (identity), as the comparison of two shared pointers is.
\<close>

type_synonym TexturePtr = "nat option"
type_synonym ShaderPtr = "nat option"

datatype CompositionMode = CompositionMode_Normal | CompositionMode_Light | CompositionMode_Other nat

datatype DrawMode = DrawMode_None | Triangles | TriangleStrip

text \<open>
  The painter state, with the fields that the draw pool reads or writes. Opacity is a
  C++ float; it is modelled by a real number, which covers every finite value.
\<close>

record PainterState =
  clipRect :: Rect
  compositionMode :: CompositionMode
  opacity :: real
  alphaWriting :: bool
  shaderProgram :: ShaderPtr
  texture :: TexturePtr
  color :: Color

text \<open>
  Modelled from the spec: the equality operator of the painter state is declared in
  the painter's header, which is not under \<^verbatim>\<open>src/\<close>. Two states are equal
  (mergeable) under value equality of all fields relevant to batching: texture
  identity, color, clip, composition, opacity, shader.
\<close>

definition state_eq :: "PainterState \<Rightarrow> PainterState \<Rightarrow> bool" where
  "state_eq a b =
     (texture a = texture b \<and> color a = color b \<and> clipRect a = clipRect b \<and>
      compositionMode a = compositionMode b \<and> opacity a = opacity b \<and>
      shaderProgram a = shaderProgram b)"

section \<open>Draw methods, draw objects and pools\<close>

datatype DrawMethodType =
    DRAW_FILLED_RECT
  | DRAW_REPEATED_FILLED_RECT
  | DRAW_TEXTURED_RECT
  | DRAW_REPEATED_TEXTURED_RECT
  | DRAW_REPEATED_TEXTURED_REPEATED_RECT
  | DRAW_UPSIDEDOWN_TEXTURED_RECT
  | DRAW_FILLED_TRIANGLE
  | DRAW_BOUNDING_RECT

record DrawMethod =
  mtype :: DrawMethodType
  rects :: "Rect \<times> Rect"
  points :: "Point \<times> Point \<times> Point"
  dest :: Point
  intValue :: int
  hash :: size_t

text \<open>
  \<^verbatim>\<open>Pool::DrawMethod method{ type }\<close>: the type is given and every other member is
  default-constructed.
\<close>

definition DrawMethod_init :: "DrawMethodType \<Rightarrow> DrawMethod" where
  "DrawMethod_init t =
     \<lparr>mtype = t, rects = (Rect_default, Rect_default),
      points = (Point_default, Point_default, Point_default),
      dest = Point_default, intValue = 0, hash = 0\<rparr>"

text \<open>A deferred action is a callback; it is kept as a handle.\<close>

record DrawObject =
  state :: PainterState
  drawMode :: DrawMode
  drawMethods :: "DrawMethod list"
  action :: "nat option"

record PoolState =
  pool_clipRect :: Rect
  pool_compositionMode :: CompositionMode
  pool_opacity :: real
  pool_alphaWriting :: bool
  pool_shaderProgram :: ShaderPtr

text \<open>
  The part of a pool that only a framed pool has. \<open>m_status\<close> is the pair
  (committed hash, running hash).
\<close>

record FramedPool =
  m_status :: "size_t \<times> size_t"
  m_autoUpdate :: bool
  m_dest :: Rect
  m_src :: Rect
  m_beforeDraw :: "nat option"
  m_afterDraw :: "nat option"

text \<open>
  A pool. \<open>m_framebuffer\<close> is \<open>None\<close> for a pool without framebuffer and holds the
  framed part otherwise, so that \<^verbatim>\<open>hasFrameBuffer()\<close> is the test for \<open>Some\<close>.
  The members are declared in the pool's header, outside the file;
  \<open>m_indexToStartSearching\<close> has the width of the \<^verbatim>\<open>uint16\<close> local that
  \<^verbatim>\<open>addRepeated\<close> computes from it.
\<close>

record Pool =
  m_objects :: "DrawObject list"
  m_enabled :: bool
  m_state :: PoolState
  m_indexToStartSearching :: "16 word"
  m_framebuffer :: "FramedPool option"

text \<open>
  Modelled from the spec: \<^verbatim>\<open>isEnabled\<close> and \<^verbatim>\<open>hasFrameBuffer\<close> are members
  of the pool, whose header is not under \<^verbatim>\<open>src/\<close>. A pool has an enabled flag,
  and a framed pool is a pool that owns an offscreen framebuffer.
\<close>

definition isEnabled :: "Pool \<Rightarrow> bool" where
  "isEnabled p = m_enabled p"

definition hasFrameBuffer :: "Pool \<Rightarrow> bool" where
  "hasFrameBuffer p = (m_framebuffer p \<noteq> None)"

text \<open>
  Modelled from the spec: \<^verbatim>\<open>hasModification\<close>, \<^verbatim>\<open>updateStatus\<close> and
  \<^verbatim>\<open>resetCurrentStatus\<close> are members of the framed pool, whose header is not
  under \<^verbatim>\<open>src/\<close>. The cached image is valid only while the running hash equals
  the committed hash and auto-update is false; updating the status promotes the
  running hash to committed; resetting the current status clears the running hash.
\<close>

definition hasModification :: "FramedPool \<Rightarrow> bool" where
  "hasModification pf = (fst (m_status pf) \<noteq> snd (m_status pf) \<or> m_autoUpdate pf)"

definition updateStatus :: "FramedPool \<Rightarrow> FramedPool" where
  "updateStatus pf = pf\<lparr>m_status := (snd (m_status pf), snd (m_status pf))\<rparr>"

definition resetCurrentStatus :: "FramedPool \<Rightarrow> FramedPool" where
  "resetCurrentStatus pf = pf\<lparr>m_status := (fst (m_status pf), 0)\<rparr>"

section \<open>Collaborators outside the source file\<close>

text \<open>
  The functions and constants that the draw pool calls and whose code is outside the
  repository file (the standard and boost hash functions, the hash of a rect and of a
  point, the texture queries, the numeric value of a composition mode, the default
  draw modes of the declarations, the value-initialised painter state and the clean
  baseline of a pool's working state) are parameters of the model.
\<close>

record externals =
  hash_combine :: "size_t \<Rightarrow> size_t \<Rightarrow> size_t"
  HASH_INT :: "size_t \<Rightarrow> size_t"
  HASH_FLOAT :: "real \<Rightarrow> size_t"
  rect_hash :: "Rect \<Rightarrow> size_t"
  point_hash :: "Point \<Rightarrow> size_t"
  compositionMode_value :: "CompositionMode \<Rightarrow> size_t"
  texture_getId :: "nat \<Rightarrow> size_t"
  texture_getSize :: "nat \<Rightarrow> Size"
  texture_isOpaque :: "nat \<Rightarrow> bool"
  texture_canSuperimposed :: "nat \<Rightarrow> bool"
  add_defaultDrawMode :: DrawMode
  addRepeated_defaultDrawMode :: DrawMode
  emptyPainterState :: PainterState
  baselinePoolState :: PoolState

text \<open>What goes wrong where the C++ has undefined behaviour.\<close>

datatype fault =
    NullTextureInScan
  | NullTextureGetSize
  | SearchStartOutOfRange

section \<open>The content hash\<close>

text \<open>
  \<^verbatim>\<open>DrawPool::updateHash\<close> on the current pool: a pool without framebuffer is left
  as it is; otherwise the local hash is built field by field and combined into the
  running hash of the pool.
\<close>

definition updateHash :: "externals \<Rightarrow> PainterState \<Rightarrow> DrawMethod \<Rightarrow> Pool \<Rightarrow> Pool" where
  "updateHash E st mtd pool =
     (case m_framebuffer pool of
        None \<Rightarrow> pool
      | Some pf \<Rightarrow>
          let h0 = (0 :: size_t);
              h1 = (case texture st of
                      Some t \<Rightarrow> hash_combine E h0 (HASH_INT E (texture_getId E t))
                    | None \<Rightarrow> h0);
              h2 = (if opacity st < 1 then hash_combine E h1 (HASH_FLOAT E (opacity st)) else h1);
              h3 = (if color st \<noteq> Color_white
                    then hash_combine E h2 (HASH_INT E (ucast (color st))) else h2);
              h4 = (if compositionMode st \<noteq> CompositionMode_Normal
                    then hash_combine E h3 (HASH_INT E (compositionMode_value E (compositionMode st)))
                    else h3);
              pf1 = (if shaderProgram st \<noteq> None then pf\<lparr>m_autoUpdate := True\<rparr> else pf);
              h5 = (if rect_isValid (clipRect st)
                    then hash_combine E h4 (rect_hash E (clipRect st)) else h4);
              h6 = (if rect_isValid (fst (rects mtd))
                    then hash_combine E h5 (rect_hash E (fst (rects mtd))) else h5);
              h7 = (if rect_isValid (snd (rects mtd))
                    then hash_combine E h6 (rect_hash E (snd (rects mtd))) else h6);
              a = fst (points mtd);
              b = fst (snd (points mtd));
              c = snd (snd (points mtd));
              h8 = (if \<not> point_isNull a then hash_combine E h7 (point_hash E a) else h7);
              h9 = (if \<not> point_isNull b then hash_combine E h8 (point_hash E b) else h8);
              h10 = (if \<not> point_isNull c then hash_combine E h9 (point_hash E c) else h9);
              h11 = (if intValue mtd \<noteq> 0
                     then hash_combine E h10 (HASH_INT E (word_of_int (intValue mtd))) else h10);
              h12 = (if hash mtd \<noteq> 0 then hash_combine E h11 (hash mtd) else h11)
          in pool\<lparr>m_framebuffer :=
                    Some (pf1\<lparr>m_status := (fst (m_status pf1),
                                            hash_combine E (snd (m_status pf1)) h12)\<rparr>)\<rparr>)"

section \<open>Adding draw methods to the current pool\<close>

text \<open>
  \<^verbatim>\<open>std::find_if\<close> over a range: the position of the first element that satisfies
  the predicate, and the length of the range (its end) when there is none.
\<close>

fun find_if :: "('a \<Rightarrow> bool) \<Rightarrow> 'a list \<Rightarrow> nat" where
  "find_if P [] = 0"
| "find_if P (v # vs) = (if P v then 0 else Suc (find_if P vs))"

text \<open>
  \<^verbatim>\<open>DrawPool::addRepeated\<close> on the current pool. The search starts at position
  \<open>m_indexToStartSearching - 1\<close>, or at the first object when the index is zero. An
  iterator beyond the end of the vector is undefined behaviour and is a fault here.
\<close>

definition addRepeated ::
  "externals \<Rightarrow> PainterState \<Rightarrow> DrawMethod \<Rightarrow> DrawMode \<Rightarrow> Pool \<Rightarrow> fault + Pool" where
  "addRepeated E st mtd dm pool0 =
     (let pool = updateHash E st mtd pool0;
          startIndex = (if m_indexToStartSearching pool \<noteq> 0
                        then m_indexToStartSearching pool - 1 else (0 :: 16 word));
          objs = m_objects pool
      in if unat startIndex > length objs then Inl SearchStartOutOfRange
         else
           let itFind = unat startIndex +
                        find_if (\<lambda>obj. state_eq (state obj) st) (drop (unat startIndex) objs)
           in if itFind \<noteq> length objs
              then Inr (pool\<lparr>m_objects :=
                          objs[itFind := (objs ! itFind)\<lparr>drawMethods :=
                                           drawMethods (objs ! itFind) @ [mtd]\<rparr>]\<rparr>)
              else Inr (pool\<lparr>m_objects :=
                          objs @ [\<lparr>state = st, drawMode = dm, drawMethods = [mtd],
                                   action = None\<rparr>]\<rparr>))"

text \<open>
  The loop of \<^verbatim>\<open>DrawPool::add\<close> over the methods of the trailing object. It erases
  the first method that passes the test and stops. The test is evaluated left to right
  with the short circuits of the C++ operators, so the texture of the new state is
  dereferenced only when the destinations are equal and the first alternative fails,
  and the texture of the trailing object only when, in addition, the new texture is
  opaque. Dereferencing a null texture is a fault.
\<close>

fun add_scan ::
  "externals \<Rightarrow> bool \<Rightarrow> PainterState \<Rightarrow> PainterState \<Rightarrow> DrawMethod \<Rightarrow> DrawMethod list
     \<Rightarrow> fault + DrawMethod list" where
  "add_scan E sameState st prevState mtd [] = Inr []"
| "add_scan E sameState st prevState mtd (prevMtd # rest) =
     (if dest prevMtd = dest mtd then
        (if sameState \<and> snd (rects prevMtd) = snd (rects mtd) then Inr rest
         else
           (case texture st of
              None \<Rightarrow> Inl NullTextureInScan
            | Some t \<Rightarrow>
                if texture_isOpaque E t then
                  (case texture prevState of
                     None \<Rightarrow> Inl NullTextureInScan
                   | Some pt \<Rightarrow>
                       if texture_canSuperimposed E pt then Inr rest
                       else map_sum id (Cons prevMtd)
                              (add_scan E sameState st prevState mtd rest))
                else map_sum id (Cons prevMtd) (add_scan E sameState st prevState mtd rest)))
      else map_sum id (Cons prevMtd) (add_scan E sameState st prevState mtd rest))"

text \<open>\<^verbatim>\<open>DrawPool::add\<close> on the current pool.\<close>

definition add ::
  "externals \<Rightarrow> PainterState \<Rightarrow> DrawMethod \<Rightarrow> DrawMode \<Rightarrow> Pool \<Rightarrow> fault + Pool" where
  "add E st mtd dm pool0 =
     (let pool = updateHash E st mtd pool0;
          list = m_objects pool;
          newObj = \<lparr>state = st, drawMode = dm, drawMethods = [mtd], action = None\<rparr>
      in if list \<noteq> [] then
           (let prevObj = last list;
                sameState = state_eq (state prevObj) st
            in case (if \<not> point_isNull (dest mtd)
                     then add_scan E sameState st (state prevObj) mtd (drawMethods prevObj)
                     else Inr (drawMethods prevObj)) of
                 Inl e \<Rightarrow> Inl e
               | Inr ms \<Rightarrow>
                   if sameState
                   then Inr (pool\<lparr>m_objects :=
                               butlast list @
                               [prevObj\<lparr>drawMode := Triangles, drawMethods := ms @ [mtd]\<rparr>]\<rparr>)
                   else Inr (pool\<lparr>m_objects :=
                               butlast list @ [prevObj\<lparr>drawMethods := ms\<rparr>] @ [newObj]\<rparr>))
         else Inr (pool\<lparr>m_objects := [newObj]\<rparr>))"

section \<open>The public entry points\<close>

text \<open>
  \<^verbatim>\<open>DrawPool::generateState\<close>: the painter's current state \<open>cur\<close> with the five
  fields of the current pool's working state written over it.
\<close>

definition generateState :: "PainterState \<Rightarrow> Pool \<Rightarrow> PainterState" where
  "generateState cur pool =
     cur\<lparr>clipRect := pool_clipRect (m_state pool),
         compositionMode := pool_compositionMode (m_state pool),
         opacity := pool_opacity (m_state pool),
         alphaWriting := pool_alphaWriting (m_state pool),
         shaderProgram := pool_shaderProgram (m_state pool)\<rparr>"

definition addTexturedRect ::
  "externals \<Rightarrow> PainterState \<Rightarrow> Rect \<Rightarrow> TexturePtr \<Rightarrow> Rect \<Rightarrow> Color \<Rightarrow> Point \<Rightarrow> Pool
     \<Rightarrow> fault + Pool" where
  "addTexturedRect E cur dst tex src col originalDest pool =
     (if rect_isEmpty dst \<or> rect_isEmpty src then Inr pool
      else add E ((generateState cur pool)\<lparr>color := col, texture := tex\<rparr>)
             ((DrawMethod_init DRAW_TEXTURED_RECT)\<lparr>rects := (dst, src), dest := originalDest\<rparr>)
             TriangleStrip pool)"

text \<open>
  The overload without source rect reads the size of the texture before it delegates;
  the original destination then has its default, the null point.
\<close>

definition addTexturedRect_whole ::
  "externals \<Rightarrow> PainterState \<Rightarrow> Rect \<Rightarrow> TexturePtr \<Rightarrow> Color \<Rightarrow> Pool \<Rightarrow> fault + Pool" where
  "addTexturedRect_whole E cur dst tex col pool =
     (case tex of
        None \<Rightarrow> Inl NullTextureGetSize
      | Some t \<Rightarrow> addTexturedRect E cur dst tex (Rect_of Point_default (texture_getSize E t)) col
                    Point_default pool)"

definition addUpsideDownTexturedRect ::
  "externals \<Rightarrow> PainterState \<Rightarrow> Rect \<Rightarrow> TexturePtr \<Rightarrow> Rect \<Rightarrow> Color \<Rightarrow> Pool \<Rightarrow> fault + Pool" where
  "addUpsideDownTexturedRect E cur dst tex src col pool =
     (if rect_isEmpty dst \<or> rect_isEmpty src then Inr pool
      else add E ((generateState cur pool)\<lparr>color := col, texture := tex\<rparr>)
             ((DrawMethod_init DRAW_UPSIDEDOWN_TEXTURED_RECT)\<lparr>rects := (dst, src)\<rparr>)
             TriangleStrip pool)"

definition addRepeatedTexturedRect ::
  "externals \<Rightarrow> PainterState \<Rightarrow> Rect \<Rightarrow> TexturePtr \<Rightarrow> Rect \<Rightarrow> Color \<Rightarrow> Pool \<Rightarrow> fault + Pool" where
  "addRepeatedTexturedRect E cur dst tex src col pool =
     (if rect_isEmpty dst \<or> rect_isEmpty src then Inr pool
      else addRepeated E ((generateState cur pool)\<lparr>color := col, texture := tex\<rparr>)
             ((DrawMethod_init DRAW_REPEATED_TEXTURED_RECT)\<lparr>rects := (dst, src)\<rparr>)
             (addRepeated_defaultDrawMode E) pool)"

definition addRepeatedTexturedRect_whole ::
  "externals \<Rightarrow> PainterState \<Rightarrow> Rect \<Rightarrow> TexturePtr \<Rightarrow> Color \<Rightarrow> Pool \<Rightarrow> fault + Pool" where
  "addRepeatedTexturedRect_whole E cur dst tex col pool =
     (case tex of
        None \<Rightarrow> Inl NullTextureGetSize
      | Some t \<Rightarrow> addRepeatedTexturedRect E cur dst tex
                    (Rect_of Point_default (texture_getSize E t)) col pool)"

definition addRepeatedTexturedRepeatedRect ::
  "externals \<Rightarrow> PainterState \<Rightarrow> Rect \<Rightarrow> TexturePtr \<Rightarrow> Rect \<Rightarrow> Color \<Rightarrow> Pool \<Rightarrow> fault + Pool" where
  "addRepeatedTexturedRepeatedRect E cur dst tex src col pool =
     (if rect_isEmpty dst \<or> rect_isEmpty src then Inr pool
      else addRepeated E ((generateState cur pool)\<lparr>color := col, texture := tex\<rparr>)
             ((DrawMethod_init DRAW_REPEATED_TEXTURED_REPEATED_RECT)\<lparr>rects := (dst, src)\<rparr>)
             (addRepeated_defaultDrawMode E) pool)"

definition addRepeatedFilledRect ::
  "externals \<Rightarrow> PainterState \<Rightarrow> Rect \<Rightarrow> Rect \<Rightarrow> Color \<Rightarrow> Pool \<Rightarrow> fault + Pool" where
  "addRepeatedFilledRect E cur dst src col pool =
     (if rect_isEmpty dst then Inr pool
      else addRepeated E ((generateState cur pool)\<lparr>color := col\<rparr>)
             ((DrawMethod_init DRAW_REPEATED_FILLED_RECT)\<lparr>rects := (dst, src)\<rparr>)
             (addRepeated_defaultDrawMode E) pool)"

definition addRepeatedFilledRect_noSrc ::
  "externals \<Rightarrow> PainterState \<Rightarrow> Rect \<Rightarrow> Color \<Rightarrow> Pool \<Rightarrow> fault + Pool" where
  "addRepeatedFilledRect_noSrc E cur dst col pool =
     addRepeatedFilledRect E cur dst Rect_default col pool"

definition addFilledRect ::
  "externals \<Rightarrow> PainterState \<Rightarrow> Rect \<Rightarrow> Rect \<Rightarrow> Color \<Rightarrow> Pool \<Rightarrow> fault + Pool" where
  "addFilledRect E cur dst src col pool =
     (if rect_isEmpty dst then Inr pool
      else add E ((generateState cur pool)\<lparr>color := col\<rparr>)
             ((DrawMethod_init DRAW_FILLED_RECT)\<lparr>rects := (dst, src)\<rparr>)
             (add_defaultDrawMode E) pool)"

definition addFilledRect_noSrc ::
  "externals \<Rightarrow> PainterState \<Rightarrow> Rect \<Rightarrow> Color \<Rightarrow> Pool \<Rightarrow> fault + Pool" where
  "addFilledRect_noSrc E cur dst col pool = addFilledRect E cur dst Rect_default col pool"

definition addFilledTriangle ::
  "externals \<Rightarrow> PainterState \<Rightarrow> Point \<Rightarrow> Point \<Rightarrow> Point \<Rightarrow> Color \<Rightarrow> Pool \<Rightarrow> fault + Pool" where
  "addFilledTriangle E cur a b c col pool =
     (if a = b \<or> a = c \<or> b = c then Inr pool
      else add E ((generateState cur pool)\<lparr>color := col\<rparr>)
             ((DrawMethod_init DRAW_FILLED_TRIANGLE)\<lparr>points := (a, b, c)\<rparr>)
             (add_defaultDrawMode E) pool)"

definition addBoundingRect ::
  "externals \<Rightarrow> PainterState \<Rightarrow> Rect \<Rightarrow> Color \<Rightarrow> int \<Rightarrow> Pool \<Rightarrow> fault + Pool" where
  "addBoundingRect E cur dst col innerLineWidth pool =
     (if rect_isEmpty dst \<or> innerLineWidth = 0 then Inr pool
      else add E ((generateState cur pool)\<lparr>color := col\<rparr>)
             ((DrawMethod_init DRAW_BOUNDING_RECT)\<lparr>rects := (dst, Rect_default),
                                                   intValue := innerLineWidth\<rparr>)
             (add_defaultDrawMode E) pool)"

definition addAction :: "externals \<Rightarrow> nat \<Rightarrow> Pool \<Rightarrow> Pool" where
  "addAction E act pool =
     pool\<lparr>m_objects := m_objects pool @
            [\<lparr>state = emptyPainterState E, drawMode = DrawMode_None, drawMethods = [],
              action = Some act\<rparr>]\<rparr>"

section \<open>The pool manager\<close>

text \<open>
  The pools are the entries of \<open>m_pools\<close>, in type order; the current pool and the
  fallback pool are positions in it, since both pointers alias entries of the table.
  \<open>painterState\<close> is what \<^verbatim>\<open>g_painter->getCurrentState()\<close> returns.
\<close>

record DrawPool =
  m_pools :: "Pool list"
  m_currentPool :: nat
  n_unknowPool :: nat
  painterState :: PainterState

text \<open>An operation on the current pool, as an operation on the manager.\<close>

definition onCurrentPool :: "(Pool \<Rightarrow> fault + Pool) \<Rightarrow> DrawPool \<Rightarrow> fault + DrawPool" where
  "onCurrentPool f s =
     (case f (m_pools s ! m_currentPool s) of
        Inl e \<Rightarrow> Inl e
      | Inr p \<Rightarrow> Inr (s\<lparr>m_pools := (m_pools s)[m_currentPool s := p]\<rparr>))"

text \<open>
  Modelled from the spec: \<^verbatim>\<open>Pool::resetState\<close> is declared in the pool's header,
  which is not under \<^verbatim>\<open>src/\<close>. It resets the pool's working painter state to a
  clean baseline.
\<close>

definition resetState :: "externals \<Rightarrow> Pool \<Rightarrow> Pool" where
  "resetState E pool = pool\<lparr>m_state := baselinePoolState E\<rparr>"

text \<open>\<^verbatim>\<open>DrawPool::use(pool)\<close>; a null pointer selects the fallback pool.\<close>

definition use :: "externals \<Rightarrow> nat option \<Rightarrow> DrawPool \<Rightarrow> DrawPool" where
  "use E poolPtr s =
     (let i = (case poolPtr of Some j \<Rightarrow> j | None \<Rightarrow> n_unknowPool s);
          p = resetState E (m_pools s ! i);
          p' = (if hasFrameBuffer p
                then p\<lparr>m_framebuffer := map_option resetCurrentStatus (m_framebuffer p)\<rparr>
                else p)
      in s\<lparr>m_currentPool := i, m_pools := (m_pools s)[i := p']\<rparr>)"

text \<open>\<^verbatim>\<open>DrawPool::use(pool, dest, src)\<close> for a framed pool at position \<open>i\<close>.\<close>

definition use_framed :: "externals \<Rightarrow> nat \<Rightarrow> Rect \<Rightarrow> Rect \<Rightarrow> DrawPool \<Rightarrow> DrawPool" where
  "use_framed E i dst src s =
     (let s1 = use E (Some i) s;
          p = m_pools s1 ! i;
          p' = p\<lparr>m_framebuffer := map_option (\<lambda>pf. pf\<lparr>m_dest := dst, m_src := src\<rparr>) (m_framebuffer p),
                 m_state := (m_state p)\<lparr>pool_alphaWriting := False\<rparr>\<rparr>
      in s1\<lparr>m_pools := (m_pools s1)[i := p']\<rparr>)"

subsection \<open>Drawing\<close>

text \<open>What \<^verbatim>\<open>DrawPool::drawObject\<close> sends to the coordinate buffer and the painter.\<close>

datatype coords_call =
    AddBoudingRect Rect int
  | AddRect Rect
  | AddTriangle Point Point Point
  | AddRectTex Rect Rect
  | AddQuad Rect Rect
  | AddUpsideDownRect Rect Rect
  | AddUpsideDownQuad Rect Rect
  | AddRepeatedRects Rect Rect

datatype painter_call =
    RunAction nat
  | ExecuteState PainterState
  | TextureCreate nat
  | SetTexture nat
  | DrawCoords "coords_call list" DrawMode

definition method_coords :: "DrawMode \<Rightarrow> DrawMethod \<Rightarrow> coords_call list" where
  "method_coords dm mtd =
     (if mtype mtd = DRAW_BOUNDING_RECT then [AddBoudingRect (fst (rects mtd)) (intValue mtd)]
      else if mtype mtd = DRAW_FILLED_RECT \<or> mtype mtd = DRAW_REPEATED_FILLED_RECT
        then [AddRect (fst (rects mtd))]
      else if mtype mtd = DRAW_FILLED_TRIANGLE
        then [AddTriangle (fst (points mtd)) (fst (snd (points mtd))) (snd (snd (points mtd)))]
      else if mtype mtd = DRAW_TEXTURED_RECT \<or> mtype mtd = DRAW_REPEATED_TEXTURED_RECT
        then (if dm = Triangles then [AddRectTex (fst (rects mtd)) (snd (rects mtd))]
              else [AddQuad (fst (rects mtd)) (snd (rects mtd))])
      else if mtype mtd = DRAW_UPSIDEDOWN_TEXTURED_RECT
        then (if dm = Triangles then [AddUpsideDownRect (fst (rects mtd)) (snd (rects mtd))]
              else [AddUpsideDownQuad (fst (rects mtd)) (snd (rects mtd))])
      else if mtype mtd = DRAW_REPEATED_TEXTURED_REPEATED_RECT
        then [AddRepeatedRects (fst (rects mtd)) (snd (rects mtd))]
      else [])"

definition drawObject :: "DrawObject \<Rightarrow> painter_call list" where
  "drawObject obj =
     (case action obj of
        Some act \<Rightarrow> [RunAction act]
      | None \<Rightarrow>
          if drawMethods obj = [] then []
          else [ExecuteState (state obj)] @
               (case texture (state obj) of
                  Some t \<Rightarrow> [TextureCreate t, SetTexture t]
                | None \<Rightarrow> []) @
               [DrawCoords (concat (map (method_coords (drawMode obj)) (drawMethods obj)))
                  (drawMode obj)])"

text \<open>
  What \<^verbatim>\<open>DrawPool::draw\<close> does to the framebuffers and the painter, in order. The
  number is the position of the pool; \<open>DrawObjectCall i obj\<close> is the call of
  \<^verbatim>\<open>drawObject\<close> on an object of pool \<open>i\<close>.
\<close>

datatype draw_event =
    FramebufferBind nat
  | FramebufferRelease nat
  | DrawObjectCall nat DrawObject
  | SaveAndResetState
  | BeforeDraw nat nat
  | FramebufferDraw nat Rect Rect
  | AfterDraw nat nat
  | RestoreSavedState

text \<open>One iteration of the first loop (pre draw).\<close>

definition preDraw_pool :: "nat \<Rightarrow> Pool \<Rightarrow> Pool \<times> draw_event list" where
  "preDraw_pool i pool =
     (if \<not> isEnabled pool \<or> \<not> hasFrameBuffer pool then (pool, [])
      else
        (case m_framebuffer pool of
           None \<Rightarrow> (pool, [])
         | Some pf \<Rightarrow>
             if hasModification pf
             then (pool\<lparr>m_framebuffer := Some (updateStatus pf)\<rparr>,
                   if m_objects pool \<noteq> []
                   then [FramebufferBind i] @ map (DrawObjectCall i) (m_objects pool) @
                        [FramebufferRelease i]
                   else [])
             else (pool, [])))"

fun preDraw_loop :: "nat \<Rightarrow> Pool list \<Rightarrow> Pool list \<times> draw_event list" where
  "preDraw_loop i [] = ([], [])"
| "preDraw_loop i (p # ps) =
     (let (p', ev) = preDraw_pool i p;
          (ps', evs) = preDraw_loop (Suc i) ps
      in (p' # ps', ev @ evs))"

text \<open>One iteration of the second loop (draw).\<close>

definition draw_pool :: "nat \<Rightarrow> Pool \<Rightarrow> Pool \<times> draw_event list" where
  "draw_pool i pool =
     (if \<not> isEnabled pool then (pool, [])
      else
        (pool\<lparr>m_objects := []\<rparr>,
         (case m_framebuffer pool of
            Some pf \<Rightarrow>
              [SaveAndResetState] @
              (case m_beforeDraw pf of Some f \<Rightarrow> [BeforeDraw i f] | None \<Rightarrow> []) @
              [FramebufferDraw i (m_dest pf) (m_src pf)] @
              (case m_afterDraw pf of Some f \<Rightarrow> [AfterDraw i f] | None \<Rightarrow> []) @
              [RestoreSavedState]
          | None \<Rightarrow> map (DrawObjectCall i) (m_objects pool))))"

fun draw_loop :: "nat \<Rightarrow> Pool list \<Rightarrow> Pool list \<times> draw_event list" where
  "draw_loop i [] = ([], [])"
| "draw_loop i (p # ps) =
     (let (p', ev) = draw_pool i p;
          (ps', evs) = draw_loop (Suc i) ps
      in (p' # ps', ev @ evs))"

definition preDraw :: "DrawPool \<Rightarrow> DrawPool \<times> draw_event list" where
  "preDraw s = (let (ps, evs) = preDraw_loop 0 (m_pools s) in (s\<lparr>m_pools := ps\<rparr>, evs))"

definition drawPhase :: "DrawPool \<Rightarrow> DrawPool \<times> draw_event list" where
  "drawPhase s = (let (ps, evs) = draw_loop 0 (m_pools s) in (s\<lparr>m_pools := ps\<rparr>, evs))"

text \<open>\<^verbatim>\<open>DrawPool::draw\<close>: the pre draw loop, then the draw loop.\<close>

definition draw :: "DrawPool \<Rightarrow> DrawPool \<times> draw_event list" where
  "draw s =
     (let (s1, evs1) = preDraw s;
          (s2, evs2) = drawPhase s1
      in (s2, evs1 @ evs2))"

section \<open>The completely-covered cache of a tile\<close>

text \<open>
  The two members of \<^verbatim>\<open>Tile\<close> that \<^verbatim>\<open>setCompletelyCoveredCache\<close> touches. The
  array has \<^verbatim>\<open>Otc::MAX_Z + 1\<close> entries; the constant is declared outside the file,
  so the length of the list stands for it.
\<close>

record Tile =
  m_currentFirstVisibleFloor :: "8 word"
  m_completelyCoveredCache :: "8 word list"

definition UINT8_MAX :: "8 word" where
  "UINT8_MAX = 255"

text \<open>
  \<^verbatim>\<open>Tile::setCompletelyCoveredCache\<close>. A write beyond the end of the array is
  undefined behaviour; the result is \<open>None\<close> there.
\<close>

definition setCompletelyCoveredCache :: "8 word \<Rightarrow> Tile \<Rightarrow> Tile option" where
  "setCompletelyCoveredCache st t =
     (if st = 0
      then Some (t\<lparr>m_completelyCoveredCache :=
                     replicate (length (m_completelyCoveredCache t)) 0\<rparr>)
      else if m_currentFirstVisibleFloor t \<noteq> UINT8_MAX
      then (if unat (m_currentFirstVisibleFloor t) < length (m_completelyCoveredCache t)
            then Some (t\<lparr>m_completelyCoveredCache :=
                           (m_completelyCoveredCache t)[unat (m_currentFirstVisibleFloor t) := st]\<rparr>)
            else None)
      else Some t)"

section \<open>The content hash as the specification words it\<close>

text \<open>
  The values that the specification folds into the hash, in its order, each present
  only when its field is not at the neutral value: texture id, opacity, color,
  composition mode, clip rect, the two rects of the method, its three points, the
  integer parameter and the precomputed hash of the method.
\<close>

definition hash_contributions :: "externals \<Rightarrow> PainterState \<Rightarrow> DrawMethod \<Rightarrow> size_t list" where
  "hash_contributions E st mtd =
     (case texture st of Some t \<Rightarrow> [HASH_INT E (texture_getId E t)] | None \<Rightarrow> []) @
     (if opacity st < 1 then [HASH_FLOAT E (opacity st)] else []) @
     (if color st \<noteq> Color_white then [HASH_INT E (ucast (color st))] else []) @
     (if compositionMode st \<noteq> CompositionMode_Normal
      then [HASH_INT E (compositionMode_value E (compositionMode st))] else []) @
     (if rect_isValid (clipRect st) then [rect_hash E (clipRect st)] else []) @
     (if rect_isValid (fst (rects mtd)) then [rect_hash E (fst (rects mtd))] else []) @
     (if rect_isValid (snd (rects mtd)) then [rect_hash E (snd (rects mtd))] else []) @
     (if \<not> point_isNull (fst (points mtd)) then [point_hash E (fst (points mtd))] else []) @
     (if \<not> point_isNull (fst (snd (points mtd)))
      then [point_hash E (fst (snd (points mtd)))] else []) @
     (if \<not> point_isNull (snd (snd (points mtd)))
      then [point_hash E (snd (snd (points mtd)))] else []) @
     (if intValue mtd \<noteq> 0 then [HASH_INT E (word_of_int (intValue mtd))] else []) @
     (if hash mtd \<noteq> 0 then [hash mtd] else [])"

text \<open>The fold of the values into a local hash that starts at zero.\<close>

definition content_hash :: "externals \<Rightarrow> PainterState \<Rightarrow> DrawMethod \<Rightarrow> size_t" where
  "content_hash E st mtd = foldl (hash_combine E) 0 (hash_contributions E st mtd)"

section \<open>Notions used to state the properties\<close>

subsection \<open>The removal step of add\<close>

text \<open>A list without the first element that satisfies a predicate.\<close>

fun erase_first :: "('a \<Rightarrow> bool) \<Rightarrow> 'a list \<Rightarrow> 'a list" where
  "erase_first P [] = []"
| "erase_first P (v # vs) = (if P v then vs else v # erase_first P vs)"

text \<open>
  The test of the loop in \<^verbatim>\<open>DrawPool::add\<close> on a method \<open>prevMtd\<close> of the trailing
  object \<open>prevObj\<close>, for textures that are there: the destinations are equal, and either
  the states are equal and the source rects are equal, or the texture of the new state
  is opaque and the texture of the trailing object can be superimposed.
\<close>

definition add_hides ::
  "externals \<Rightarrow> PainterState \<Rightarrow> DrawMethod \<Rightarrow> DrawObject \<Rightarrow> DrawMethod \<Rightarrow> bool" where
  "add_hides E st mtd prevObj prevMtd =
     (dest prevMtd = dest mtd \<and>
      ((state_eq (state prevObj) st \<and> snd (rects prevMtd) = snd (rects mtd)) \<or>
       ((case texture st of Some t \<Rightarrow> texture_isOpaque E t | None \<Rightarrow> False) \<and>
        (case texture (state prevObj) of Some pt \<Rightarrow> texture_canSuperimposed E pt
         | None \<Rightarrow> False))))"

text \<open>The number of methods that a pool holds, over all its objects.\<close>

definition method_count :: "Pool \<Rightarrow> nat" where
  "method_count pool = sum_list (map (\<lambda>obj. length (drawMethods obj)) (m_objects pool))"

subsection \<open>Sequences of calls\<close>

text \<open>A sequence of calls of \<^verbatim>\<open>add\<close> on one pool; it stops at the first fault.\<close>

fun add_all ::
  "externals \<Rightarrow> (PainterState \<times> DrawMethod \<times> DrawMode) list \<Rightarrow> Pool \<Rightarrow> fault + Pool" where
  "add_all E [] pool = Inr pool"
| "add_all E ((st, mtd, dm) # cs) pool =
     (case add E st mtd dm pool of
        Inl e \<Rightarrow> Inl e
      | Inr pool' \<Rightarrow> add_all E cs pool')"

text \<open>
  Where the search of \<^verbatim>\<open>addRepeated\<close> starts, and the position at which it ends:
  the first object from there on whose state equals the given one, or the length of
  the list.
\<close>

definition search_start :: "Pool \<Rightarrow> nat" where
  "search_start pool =
     unat (if m_indexToStartSearching pool \<noteq> 0
           then m_indexToStartSearching pool - 1 else (0 :: 16 word))"

definition repeat_target :: "PainterState \<Rightarrow> Pool \<Rightarrow> nat" where
  "repeat_target st pool =
     search_start pool +
     find_if (\<lambda>obj. state_eq (state obj) st) (drop (search_start pool) (m_objects pool))"

text \<open>
  A call of a public entry point, with its arguments. The painter's current state at
  the time of the call comes with each call of a sequence.
\<close>

datatype entry_call =
    Call_addTexturedRect Rect TexturePtr Rect Color Point
  | Call_addTexturedRect_whole Rect TexturePtr Color
  | Call_addUpsideDownTexturedRect Rect TexturePtr Rect Color
  | Call_addRepeatedTexturedRect Rect TexturePtr Rect Color
  | Call_addRepeatedTexturedRect_whole Rect TexturePtr Color
  | Call_addRepeatedTexturedRepeatedRect Rect TexturePtr Rect Color
  | Call_addRepeatedFilledRect Rect Rect Color
  | Call_addRepeatedFilledRect_noSrc Rect Color
  | Call_addFilledRect Rect Rect Color
  | Call_addFilledRect_noSrc Rect Color
  | Call_addFilledTriangle Point Point Point Color
  | Call_addBoundingRect Rect Color int
  | Call_addAction nat

fun entry :: "externals \<Rightarrow> PainterState \<Rightarrow> entry_call \<Rightarrow> Pool \<Rightarrow> fault + Pool" where
  "entry E cur (Call_addTexturedRect dst tex src col originalDest) pool =
     addTexturedRect E cur dst tex src col originalDest pool"
| "entry E cur (Call_addTexturedRect_whole dst tex col) pool =
     addTexturedRect_whole E cur dst tex col pool"
| "entry E cur (Call_addUpsideDownTexturedRect dst tex src col) pool =
     addUpsideDownTexturedRect E cur dst tex src col pool"
| "entry E cur (Call_addRepeatedTexturedRect dst tex src col) pool =
     addRepeatedTexturedRect E cur dst tex src col pool"
| "entry E cur (Call_addRepeatedTexturedRect_whole dst tex col) pool =
     addRepeatedTexturedRect_whole E cur dst tex col pool"
| "entry E cur (Call_addRepeatedTexturedRepeatedRect dst tex src col) pool =
     addRepeatedTexturedRepeatedRect E cur dst tex src col pool"
| "entry E cur (Call_addRepeatedFilledRect dst src col) pool =
     addRepeatedFilledRect E cur dst src col pool"
| "entry E cur (Call_addRepeatedFilledRect_noSrc dst col) pool =
     addRepeatedFilledRect_noSrc E cur dst col pool"
| "entry E cur (Call_addFilledRect dst src col) pool = addFilledRect E cur dst src col pool"
| "entry E cur (Call_addFilledRect_noSrc dst col) pool = addFilledRect_noSrc E cur dst col pool"
| "entry E cur (Call_addFilledTriangle a b c col) pool = addFilledTriangle E cur a b c col pool"
| "entry E cur (Call_addBoundingRect dst col innerLineWidth) pool =
     addBoundingRect E cur dst col innerLineWidth pool"
| "entry E cur (Call_addAction act) pool = Inr (addAction E act pool)"

fun entries :: "externals \<Rightarrow> (PainterState \<times> entry_call) list \<Rightarrow> Pool \<Rightarrow> fault + Pool" where
  "entries E [] pool = Inr pool"
| "entries E ((cur, c) # cs) pool =
     (case entry E cur c pool of
        Inl e \<Rightarrow> Inl e
      | Inr pool' \<Rightarrow> entries E cs pool')"

text \<open>
  The caller's side of a textured call that carries an original destination: the
  texture handed over is there.
\<close>

fun texture_given :: "entry_call \<Rightarrow> bool" where
  "texture_given (Call_addTexturedRect dst tex src col originalDest) =
     (point_isNull originalDest \<or> tex \<noteq> None)"
| "texture_given c = True"

text \<open>
  What holds of a pool that was filled through the entry points by such callers: an
  object that holds a method with a non-null destination has a texture.
\<close>

definition dest_has_texture :: "Pool \<Rightarrow> bool" where
  "dest_has_texture pool =
     list_all (\<lambda>obj. list_all (\<lambda>m. point_isNull (dest m)) (drawMethods obj) \<or>
                      texture (state obj) \<noteq> None) (m_objects pool)"

subsection \<open>Frames\<close>

text \<open>
  What the manager is asked to do in the course of frames: select a pool, add to the
  current pool, or draw. A frame of a pool is a selection of the pool, a sequence of
  additions and a draw.
\<close>

datatype add_call =
    Call_add PainterState DrawMethod DrawMode
  | Call_addRepeated PainterState DrawMethod DrawMode

datatype manager_op =
    Op_use "nat option"
  | Op_call add_call
  | Op_action nat
  | Op_draw

fun pool_call :: "externals \<Rightarrow> add_call \<Rightarrow> Pool \<Rightarrow> fault + Pool" where
  "pool_call E (Call_add st mtd dm) pool = add E st mtd dm pool"
| "pool_call E (Call_addRepeated st mtd dm) pool = addRepeated E st mtd dm pool"

fun manager_step :: "externals \<Rightarrow> manager_op \<Rightarrow> DrawPool \<Rightarrow> fault + DrawPool" where
  "manager_step E (Op_use poolPtr) s = Inr (use E poolPtr s)"
| "manager_step E (Op_call c) s = onCurrentPool (pool_call E c) s"
| "manager_step E (Op_action act) s = onCurrentPool (\<lambda>pool. Inr (addAction E act pool)) s"
| "manager_step E Op_draw s = Inr (fst (draw s))"

fun run :: "externals \<Rightarrow> manager_op list \<Rightarrow> DrawPool \<Rightarrow> fault + DrawPool" where
  "run E [] s = Inr s"
| "run E (operation # ops) s =
     (case manager_step E operation s of
        Inl e \<Rightarrow> Inl e
      | Inr s' \<Rightarrow> run E ops s')"

text \<open>The additions of one frame of pool \<open>i\<close>, up to the draw.\<close>

definition frame_ops :: "nat \<Rightarrow> add_call list \<Rightarrow> manager_op list" where
  "frame_ops i calls = Op_use (Some i) # map Op_call calls"

text \<open>The running hash after a sequence of additions, from the running hash before it.\<close>

fun calls_hash :: "externals \<Rightarrow> add_call list \<Rightarrow> size_t \<Rightarrow> size_t" where
  "calls_hash E [] h = h"
| "calls_hash E (Call_add st mtd dm # cs) h =
     calls_hash E cs (hash_combine E h (content_hash E st mtd))"
| "calls_hash E (Call_addRepeated st mtd dm # cs) h =
     calls_hash E cs (hash_combine E h (content_hash E st mtd))"

text \<open>Pool \<open>i\<close> of the manager is a framed pool whose auto-update flag is set.\<close>

definition autoUpdate_on :: "nat \<Rightarrow> DrawPool \<Rightarrow> bool" where
  "autoUpdate_on i s =
     (i < length (m_pools s) \<and>
      (case m_framebuffer (m_pools s ! i) of Some pf \<Rightarrow> m_autoUpdate pf | None \<Rightarrow> False))"

section \<open>Concrete inputs\<close>

text \<open>Concrete values at which the theorems below are evaluated.\<close>

definition ex_tile :: Tile where
  "ex_tile = \<lparr>m_currentFirstVisibleFloor = 1, m_completelyCoveredCache = [2, 2, 1]\<rparr>"

definition ex_tile_unset :: Tile where
  "ex_tile_unset = \<lparr>m_currentFirstVisibleFloor = 255, m_completelyCoveredCache = [2, 2, 1]\<rparr>"


definition ex_rect :: Rect where
  "ex_rect = \<lparr>r_x1 = 0, r_y1 = 0, r_x2 = 31, r_y2 = 31\<rparr>"

definition ex_point :: Point where
  "ex_point = \<lparr>pt_x = 5, pt_y = 7\<rparr>"

definition ex_painter :: PainterState where
  "ex_painter =
     \<lparr>clipRect = Rect_default, compositionMode = CompositionMode_Normal, opacity = 1,
      alphaWriting = False, shaderProgram = None, texture = None, color = Color_white\<rparr>"

definition ex_method :: DrawMethod where
  "ex_method = (DrawMethod_init DRAW_TEXTURED_RECT)\<lparr>rects := (ex_rect, ex_rect), dest := ex_point\<rparr>"

definition ex_state :: PainterState where
  "ex_state = ex_painter\<lparr>texture := Some 2\<rparr>"

definition ex_object :: DrawObject where
  "ex_object =
     \<lparr>state = ex_state, drawMode = TriangleStrip,
      drawMethods = [ex_method], action = None\<rparr>"

definition ex_poolState :: PoolState where
  "ex_poolState =
     \<lparr>pool_clipRect = Rect_default, pool_compositionMode = CompositionMode_Normal,
      pool_opacity = 1, pool_alphaWriting = False, pool_shaderProgram = None\<rparr>"

definition ex_pool :: Pool where
  "ex_pool =
     \<lparr>m_objects = [], m_enabled = True, m_state = ex_poolState,
      m_indexToStartSearching = 0, m_framebuffer = None\<rparr>"

definition ex_framed :: FramedPool where
  "ex_framed =
     \<lparr>m_status = (0, 0), m_autoUpdate = False, m_dest = ex_rect, m_src = ex_rect,
      m_beforeDraw = None, m_afterDraw = None\<rparr>"

definition ex_framedPool :: Pool where
  "ex_framedPool = ex_pool\<lparr>m_framebuffer := Some ex_framed\<rparr>"

text \<open>A manager whose only pool is disabled and holds one object.\<close>

definition ex_drawPool_disabled :: DrawPool where
  "ex_drawPool_disabled =
     \<lparr>m_pools = [ex_pool\<lparr>m_objects := [ex_object], m_enabled := False\<rparr>],
      m_currentPool = 0, n_unknowPool = 0, painterState = ex_painter\<rparr>"

text \<open>A manager with an enabled and a disabled pool, each holding one object.\<close>

definition ex_drawPool_mixed :: DrawPool where
  "ex_drawPool_mixed =
     \<lparr>m_pools = [ex_pool\<lparr>m_objects := [ex_object]\<rparr>,
                 ex_pool\<lparr>m_objects := [ex_object], m_enabled := False\<rparr>],
      m_currentPool = 0, n_unknowPool = 0, painterState = ex_painter\<rparr>"

text \<open>
  Collaborators for the examples: textures 3 and above are opaque, texture 3 alone
  can be superimposed.
\<close>

definition ex_E :: externals where
  "ex_E =
     \<lparr>hash_combine = (\<lambda>seed v. seed * 31 + v + 1),
      HASH_INT = (\<lambda>v. v),
      HASH_FLOAT = (\<lambda>r. if r < 1 then 1 else 0),
      rect_hash = (\<lambda>r. word_of_int (r_x1 r + 3 * r_y1 r + 5 * r_x2 r + 7 * r_y2 r)),
      point_hash = (\<lambda>p. word_of_int (pt_x p + 3 * pt_y p)),
      compositionMode_value =
        (\<lambda>m. case m of CompositionMode_Normal \<Rightarrow> 0 | CompositionMode_Light \<Rightarrow> 5
                | CompositionMode_Other n \<Rightarrow> of_nat n),
      texture_getId = (\<lambda>t. of_nat t),
      texture_getSize = (\<lambda>t. \<lparr>sz_width = 32, sz_height = 32\<rparr>),
      texture_isOpaque = (\<lambda>t. 3 \<le> t),
      texture_canSuperimposed = (\<lambda>t. t = 3),
      add_defaultDrawMode = Triangles,
      addRepeated_defaultDrawMode = Triangles,
      emptyPainterState = ex_painter,
      baselinePoolState = ex_poolState\<rparr>"

text \<open>
  Pools that hold one textured rect at \<open>ex_point\<close>: under texture 2, which cannot be
  superimposed, and under texture 3, which can. Two states for a new rect: texture 3
  (opaque, can itself be superimposed) and texture 4 (opaque).
\<close>

definition ex_pool_one :: Pool where
  "ex_pool_one = ex_pool\<lparr>m_objects := [ex_object]\<rparr>"

definition ex_state_super :: PainterState where
  "ex_state_super = ex_painter\<lparr>texture := Some 3\<rparr>"

definition ex_state_opaque :: PainterState where
  "ex_state_opaque = ex_painter\<lparr>texture := Some 4\<rparr>"

definition ex_pool_super :: Pool where
  "ex_pool_super = ex_pool\<lparr>m_objects := [ex_object\<lparr>state := ex_state_super\<rparr>]\<rparr>"

text \<open>A second textured rect, at another destination.\<close>

definition ex_method_b :: DrawMethod where
  "ex_method_b = ex_method\<lparr>dest := \<lparr>pt_x = 6, pt_y = 7\<rparr>\<rparr>"

text \<open>A manager with one framed pool, and a state with a shader program bound.\<close>

definition ex_drawPool_framed :: DrawPool where
  "ex_drawPool_framed =
     \<lparr>m_pools = [ex_framedPool], m_currentPool = 0, n_unknowPool = 0,
      painterState = ex_painter\<rparr>"

definition ex_state_shader :: PainterState where
  "ex_state_shader = ex_state\<lparr>shaderProgram := Some 9\<rparr>"

text \<open>
  One addition per frame into the framed pool, and the manager before the draw of the
  first and of the second frame.
\<close>

definition ex_calls :: "add_call list" where
  "ex_calls = [Call_add ex_state ex_method TriangleStrip]"

definition ex_drawPool_frame1 :: DrawPool where
  "ex_drawPool_frame1 =
     ex_drawPool_framed\<lparr>m_pools :=
       [ex_framedPool\<lparr>m_objects := [ex_object],
                      m_framebuffer := Some (ex_framed\<lparr>m_status := (0, 14820)\<rparr>)\<rparr>]\<rparr>"

definition ex_drawPool_frame2 :: DrawPool where
  "ex_drawPool_frame2 =
     ex_drawPool_framed\<lparr>m_pools :=
       [ex_framedPool\<lparr>m_objects := [ex_object],
                      m_framebuffer := Some (ex_framed\<lparr>m_status := (14820, 14820)\<rparr>)\<rparr>]\<rparr>"
section \<open>Properties of drawing\<close>

lemma preDraw_loop_length: "length (fst (preDraw_loop i ps)) = length ps"
  by (induction ps arbitrary: i) (auto simp: split_def Let_def)

lemma preDraw_loop_nth:
  "k < length ps \<Longrightarrow> fst (preDraw_loop i ps) ! k = fst (preDraw_pool (i + k) (ps ! k))"
proof (induction ps arbitrary: i k)
  case Nil
  then show ?case by simp
next
  case (Cons p ps)
  show ?case
  proof (cases k)
    case 0
    then show ?thesis by (simp add: split_def Let_def)
  next
    case (Suc n)
    with Cons.prems have "n < length ps" by simp
    from Cons.IH [OF this, of "Suc i"] Suc show ?thesis by (simp add: split_def Let_def)
  qed
qed

lemma preDraw_loop_events:
  "set (snd (preDraw_loop i ps)) = (\<Union>k < length ps. set (snd (preDraw_pool (i + k) (ps ! k))))"
proof (induction ps arbitrary: i)
  case Nil
  then show ?case by simp
next
  case (Cons p ps)
  have "(\<Union>k < Suc (length ps). set (snd (preDraw_pool (i + k) ((p # ps) ! k)))) =
        set (snd (preDraw_pool i p)) \<union>
        (\<Union>k < length ps. set (snd (preDraw_pool (Suc i + k) (ps ! k))))"
    by (simp add: lessThan_Suc_eq_insert_0 image_image)
  with Cons.IH [of "Suc i"] show ?case by (simp add: split_def Let_def)
qed

lemma draw_loop_length: "length (fst (draw_loop i ps)) = length ps"
  by (induction ps arbitrary: i) (auto simp: split_def Let_def)

lemma draw_loop_nth:
  "k < length ps \<Longrightarrow> fst (draw_loop i ps) ! k = fst (draw_pool (i + k) (ps ! k))"
proof (induction ps arbitrary: i k)
  case Nil
  then show ?case by simp
next
  case (Cons p ps)
  show ?case
  proof (cases k)
    case 0
    then show ?thesis by (simp add: split_def Let_def)
  next
    case (Suc n)
    with Cons.prems have "n < length ps" by simp
    from Cons.IH [OF this, of "Suc i"] Suc show ?thesis by (simp add: split_def Let_def)
  qed
qed

lemma draw_loop_events:
  "set (snd (draw_loop i ps)) = (\<Union>k < length ps. set (snd (draw_pool (i + k) (ps ! k))))"
proof (induction ps arbitrary: i)
  case Nil
  then show ?case by simp
next
  case (Cons p ps)
  have "(\<Union>k < Suc (length ps). set (snd (draw_pool (i + k) ((p # ps) ! k)))) =
        set (snd (draw_pool i p)) \<union>
        (\<Union>k < length ps. set (snd (draw_pool (Suc i + k) (ps ! k))))"
    by (simp add: lessThan_Suc_eq_insert_0 image_image)
  with Cons.IH [of "Suc i"] show ?case by (simp add: split_def Let_def)
qed

lemma preDraw_pool_objects: "m_objects (fst (preDraw_pool i p)) = m_objects p"
  by (simp add: preDraw_pool_def split: option.splits)

lemma preDraw_pool_enabled: "m_enabled (fst (preDraw_pool i p)) = m_enabled p"
  by (simp add: preDraw_pool_def split: option.splits)

lemma draw_pools_length: "length (m_pools (fst (draw s))) = length (m_pools s)"
  by (simp add: draw_def preDraw_def drawPhase_def split_def Let_def
      draw_loop_length preDraw_loop_length)

lemma draw_pools_nth:
  "k < length (m_pools s) \<Longrightarrow>
   m_pools (fst (draw s)) ! k = fst (draw_pool k (fst (preDraw_pool k (m_pools s ! k))))"
  by (simp add: draw_def preDraw_def drawPhase_def split_def Let_def
      draw_loop_nth preDraw_loop_nth preDraw_loop_length)

text \<open>
  C2 (as amended): after one call of \<^verbatim>\<open>DrawPool::draw\<close> the object list of every
  enabled pool is empty, framed or not; the object list of a disabled pool is exactly
  what it was before the call, since the second loop skips a disabled pool before it
  reaches the clearing statement.
\<close>

theorem draw_clears_enabled_pools:
  "length (m_pools (fst (draw s))) = length (m_pools s) \<and>
   (\<forall>k < length (m_pools s).
      m_objects (m_pools (fst (draw s)) ! k) =
        (if isEnabled (m_pools s ! k) then [] else m_objects (m_pools s ! k)))"
  by (simp add: draw_pools_length draw_pools_nth draw_pool_def isEnabled_def
      preDraw_pool_objects preDraw_pool_enabled)

theorem draw_clears_enabled_pools_witness:
  "m_objects (m_pools (fst (draw ex_drawPool_mixed)) ! 0) = [] \<and>
   m_objects (m_pools (fst (draw ex_drawPool_mixed)) ! 1) = [ex_object]"
proof -
  have all: "\<forall>k < length (m_pools ex_drawPool_mixed).
      m_objects (m_pools (fst (draw ex_drawPool_mixed)) ! k) =
        (if isEnabled (m_pools ex_drawPool_mixed ! k) then []
         else m_objects (m_pools ex_drawPool_mixed ! k))"
    using draw_clears_enabled_pools [of ex_drawPool_mixed] by simp
  have len: "length (m_pools ex_drawPool_mixed) = 2"
    by (simp add: ex_drawPool_mixed_def)
  have "m_objects (m_pools (fst (draw ex_drawPool_mixed)) ! 0) = []"
    using all [rule_format, of 0] len
    by (simp add: ex_drawPool_mixed_def ex_pool_def isEnabled_def)
  moreover have "m_objects (m_pools (fst (draw ex_drawPool_mixed)) ! 1) = [ex_object]"
    using all [rule_format, of 1] len
    by (simp add: ex_drawPool_mixed_def ex_pool_def isEnabled_def)
  ultimately show ?thesis by simp
qed

text \<open>
  C2 as stated fails: a disabled pool that holds an object still holds it after
  \<^verbatim>\<open>DrawPool::draw\<close>.
\<close>

theorem draw_keeps_disabled_pool_counterexample:
  "\<not> isEnabled (m_pools ex_drawPool_disabled ! 0) \<and>
   m_objects (m_pools (fst (draw ex_drawPool_disabled)) ! 0) \<noteq> []"
  by (simp add: draw_def preDraw_def drawPhase_def preDraw_pool_def draw_pool_def
      ex_drawPool_disabled_def ex_pool_def isEnabled_def split_def Let_def)

section \<open>Properties of the content hash\<close>

lemma foldl_opt_append:
  "foldl f a ((if c then [v] else []) @ rest) = foldl f (if c then f a v else a) rest"
  by simp

lemma foldl_opt_last:
  "foldl f a (if c then [v] else []) = (if c then f a v else a)"
  by simp

lemma foldl_case_append:
  "foldl f a ((case x of Some t \<Rightarrow> [g t] | None \<Rightarrow> []) @ rest) =
   foldl f (case x of Some t \<Rightarrow> f a (g t) | None \<Rightarrow> a) rest"
  by (cases x) simp_all

lemma content_hash_unfold:
  "content_hash E st mtd =
     (let h0 = (0 :: size_t);
              h1 = (case texture st of
                      Some t \<Rightarrow> hash_combine E h0 (HASH_INT E (texture_getId E t))
                    | None \<Rightarrow> h0);
              h2 = (if opacity st < 1 then hash_combine E h1 (HASH_FLOAT E (opacity st)) else h1);
              h3 = (if color st \<noteq> Color_white
                    then hash_combine E h2 (HASH_INT E (ucast (color st))) else h2);
              h4 = (if compositionMode st \<noteq> CompositionMode_Normal
                    then hash_combine E h3 (HASH_INT E (compositionMode_value E (compositionMode st)))
                    else h3);
              h5 = (if rect_isValid (clipRect st)
                    then hash_combine E h4 (rect_hash E (clipRect st)) else h4);
              h6 = (if rect_isValid (fst (rects mtd))
                    then hash_combine E h5 (rect_hash E (fst (rects mtd))) else h5);
              h7 = (if rect_isValid (snd (rects mtd))
                    then hash_combine E h6 (rect_hash E (snd (rects mtd))) else h6);
              a = fst (points mtd);
              b = fst (snd (points mtd));
              c = snd (snd (points mtd));
              h8 = (if \<not> point_isNull a then hash_combine E h7 (point_hash E a) else h7);
              h9 = (if \<not> point_isNull b then hash_combine E h8 (point_hash E b) else h8);
              h10 = (if \<not> point_isNull c then hash_combine E h9 (point_hash E c) else h9);
              h11 = (if intValue mtd \<noteq> 0
                     then hash_combine E h10 (HASH_INT E (word_of_int (intValue mtd))) else h10);
              h12 = (if hash mtd \<noteq> 0 then hash_combine E h11 (hash mtd) else h11)
          in h12)"
  unfolding content_hash_def hash_contributions_def Let_def
  by (simp only: foldl_opt_append foldl_opt_last foldl_case_append)

lemma updateHash_eq:
  "updateHash E st mtd pool =
     (case m_framebuffer pool of
        None \<Rightarrow> pool
      | Some pf \<Rightarrow>
          pool\<lparr>m_framebuffer :=
                 Some (pf\<lparr>m_autoUpdate := (shaderProgram st \<noteq> None \<or> m_autoUpdate pf),
                          m_status := (fst (m_status pf),
                                       hash_combine E (snd (m_status pf)) (content_hash E st mtd))\<rparr>)\<rparr>)"
  unfolding updateHash_def content_hash_unfold Let_def
  by (cases "m_framebuffer pool"; cases "shaderProgram st") simp_all

text \<open>
  C8: for a pool without framebuffer \<^verbatim>\<open>updateHash\<close> returns at once and changes
  nothing. For a framed pool it combines into the running hash the fold, from zero, of
  exactly the values of \<open>hash_contributions\<close>: texture id (if a texture is bound),
  opacity (if below 1), color (if not white), composition mode (if not normal), clip
  rect (if valid), the two rects and the three points of the method (each if valid or
  non-null), the integer parameter (if nonzero) and the method hash (if supplied), in
  this order; the committed hash is not touched.
\<close>

theorem updateHash_folds_contributions:
  "(m_framebuffer pool = None \<longrightarrow> updateHash E st mtd pool = pool) \<and>
   (\<forall>pf. m_framebuffer pool = Some pf \<longrightarrow>
      (\<exists>pf'. m_framebuffer (updateHash E st mtd pool) = Some pf' \<and>
             fst (m_status pf') = fst (m_status pf) \<and>
             snd (m_status pf') =
               hash_combine E (snd (m_status pf))
                 (foldl (hash_combine E) 0 (hash_contributions E st mtd))) \<and>
      m_objects (updateHash E st mtd pool) = m_objects pool)"
  by (simp add: updateHash_eq content_hash_def)

theorem updateHash_folds_contributions_witness:
  "updateHash ex_E ex_state ex_method ex_pool = ex_pool \<and>
   hash_contributions ex_E ex_state ex_method = [2, 372, 372] \<and>
   m_framebuffer (updateHash ex_E ex_state ex_method ex_framedPool) =
     Some (ex_framed\<lparr>m_status := (0, 14820)\<rparr>)"
proof -
  have c: "hash_contributions ex_E ex_state ex_method = [2, 372, 372]"
    by (simp add: hash_contributions_def ex_E_def ex_state_def ex_painter_def ex_method_def
        ex_rect_def ex_point_def DrawMethod_init_def Rect_default_def Point_default_def
        Color_white_def rect_isValid_def point_isNull_def)
  have n: "m_framebuffer ex_pool = None"
    by (simp add: ex_pool_def)
  have f: "m_framebuffer ex_framedPool = Some ex_framed"
    by (simp add: ex_framedPool_def)
  have a: "updateHash ex_E ex_state ex_method ex_pool = ex_pool"
    using updateHash_folds_contributions [of ex_pool ex_E ex_state ex_method] n
    by simp
  obtain pf' where pf':
      "m_framebuffer (updateHash ex_E ex_state ex_method ex_framedPool) = Some pf'"
      "fst (m_status pf') = fst (m_status ex_framed)"
      "snd (m_status pf') =
         hash_combine ex_E (snd (m_status ex_framed))
           (foldl (hash_combine ex_E) 0 (hash_contributions ex_E ex_state ex_method))"
    using updateHash_folds_contributions [of ex_framedPool ex_E ex_state ex_method] f
    by auto
  have v: "m_status pf' = (0, 14820)"
    using pf'(2) pf'(3) unfolding c by (simp add: ex_E_def ex_framed_def prod_eq_iff)
  have r: "pf' = ex_framed\<lparr>m_status := m_status pf'\<rparr>"
    using pf'(1) f
    by (auto simp: updateHash_eq ex_state_def ex_painter_def ex_framed_def)
  show ?thesis using a c pf'(1) r v by simp
qed

section \<open>Degenerate input at the entry points\<close>

text \<open>
  C5: every public entry point returns at once on degenerate input and leaves the
  current pool, hence its object list and its running content hash, exactly as it
  was: the four textured entry points with an empty destination or source rect, the
  two filled ones with an empty destination rect, the triangle with two coincident
  points, the bounding rect with an empty rect or a zero line width. The overloads
  that take no source rect delegate to these; the two textured ones read the size of
  the texture first, so they are stated for a texture that is there.
\<close>

theorem degenerate_input_is_noop:
  "(rect_isEmpty dst \<or> rect_isEmpty src \<longrightarrow>
      addTexturedRect E cur dst tex src col originalDest pool = Inr pool \<and>
      addUpsideDownTexturedRect E cur dst tex src col pool = Inr pool \<and>
      addRepeatedTexturedRect E cur dst tex src col pool = Inr pool \<and>
      addRepeatedTexturedRepeatedRect E cur dst tex src col pool = Inr pool) \<and>
   (rect_isEmpty dst \<longrightarrow>
      addFilledRect E cur dst src col pool = Inr pool \<and>
      addFilledRect_noSrc E cur dst col pool = Inr pool \<and>
      addRepeatedFilledRect E cur dst src col pool = Inr pool \<and>
      addRepeatedFilledRect_noSrc E cur dst col pool = Inr pool) \<and>
   (rect_isEmpty dst \<and> tex \<noteq> None \<longrightarrow>
      addTexturedRect_whole E cur dst tex col pool = Inr pool \<and>
      addRepeatedTexturedRect_whole E cur dst tex col pool = Inr pool) \<and>
   (a = b \<or> a = c \<or> b = c \<longrightarrow> addFilledTriangle E cur a b c col pool = Inr pool) \<and>
   (rect_isEmpty dst \<or> innerLineWidth = 0 \<longrightarrow>
      addBoundingRect E cur dst col innerLineWidth pool = Inr pool)"
  by (auto simp: addTexturedRect_def addUpsideDownTexturedRect_def addRepeatedTexturedRect_def
      addRepeatedTexturedRepeatedRect_def addFilledRect_def addFilledRect_noSrc_def
      addRepeatedFilledRect_def addRepeatedFilledRect_noSrc_def addTexturedRect_whole_def
      addRepeatedTexturedRect_whole_def addFilledTriangle_def addBoundingRect_def)

theorem degenerate_input_is_noop_witness:
  "rect_isEmpty Rect_default \<and> \<not> rect_isEmpty ex_rect \<and>
   addTexturedRect ex_E ex_painter Rect_default (Some 2) ex_rect Color_white ex_point
     ex_framedPool = Inr ex_framedPool \<and>
   addUpsideDownTexturedRect ex_E ex_painter Rect_default (Some 2) ex_rect Color_white
     ex_framedPool = Inr ex_framedPool \<and>
   addRepeatedTexturedRect ex_E ex_painter Rect_default (Some 2) ex_rect Color_white
     ex_framedPool = Inr ex_framedPool \<and>
   addRepeatedTexturedRepeatedRect ex_E ex_painter Rect_default (Some 2) ex_rect Color_white
     ex_framedPool = Inr ex_framedPool \<and>
   addFilledRect ex_E ex_painter Rect_default ex_rect Color_white ex_framedPool =
     Inr ex_framedPool \<and>
   addRepeatedFilledRect ex_E ex_painter Rect_default ex_rect Color_white ex_framedPool =
     Inr ex_framedPool \<and>
   addTexturedRect_whole ex_E ex_painter Rect_default (Some 2) Color_white ex_framedPool =
     Inr ex_framedPool \<and>
   addFilledTriangle ex_E ex_painter ex_point ex_point Point_default Color_white ex_framedPool =
     Inr ex_framedPool \<and>
   addBoundingRect ex_E ex_painter Rect_default Color_white 0 ex_framedPool = Inr ex_framedPool"
proof -
  have e: "rect_isEmpty Rect_default"
    by (simp add: rect_isEmpty_def Rect_default_def)
  have n: "\<not> rect_isEmpty ex_rect"
    by (simp add: rect_isEmpty_def ex_rect_def)
  show ?thesis
    using e n
      degenerate_input_is_noop [of Rect_default ex_rect ex_E ex_painter "Some 2" Color_white
        ex_point ex_framedPool ex_point ex_point Point_default 0]
    by simp
qed

section \<open>Properties of add\<close>

lemma updateHash_objects: "m_objects (updateHash E st mtd pool) = m_objects pool"
  by (simp add: updateHash_eq split: option.splits)

lemma updateHash_enabled: "m_enabled (updateHash E st mtd pool) = m_enabled pool"
  by (simp add: updateHash_eq split: option.splits)

lemma updateHash_index:
  "m_indexToStartSearching (updateHash E st mtd pool) = m_indexToStartSearching pool"
  by (simp add: updateHash_eq split: option.splits)

lemma updateHash_state: "m_state (updateHash E st mtd pool) = m_state pool"
  by (simp add: updateHash_eq split: option.splits)

lemma add_scan_textured:
  "texture st = Some t \<Longrightarrow> texture prevState = Some pt \<Longrightarrow>
   add_scan E sameState st prevState mtd ms =
     Inr (erase_first (\<lambda>m. dest m = dest mtd \<and>
            ((sameState \<and> snd (rects m) = snd (rects mtd)) \<or>
             (texture_isOpaque E t \<and> texture_canSuperimposed E pt))) ms)"
  by (induction ms) auto

lemma add_scan_no_dest:
  "\<forall>m \<in> set ms. dest m \<noteq> dest mtd \<Longrightarrow> add_scan E sameState st prevState mtd ms = Inr ms"
  by (induction ms) auto

lemma erase_first_length:
  "\<exists>v \<in> set vs. P v \<Longrightarrow> Suc (length (erase_first P vs)) = length vs"
  by (induction vs) auto

lemma erase_first_none: "\<forall>v \<in> set vs. \<not> P v \<Longrightarrow> erase_first P vs = vs"
  by (induction vs) auto

lemma erase_first_split:
  "\<exists>v \<in> set vs. P v \<Longrightarrow>
   \<exists>pre v post. vs = pre @ v # post \<and> (\<forall>u \<in> set pre. \<not> P u) \<and> P v \<and>
                erase_first P vs = pre @ post"
proof (induction vs)
  case Nil
  then show ?case by simp
next
  case (Cons a vs)
  show ?case
  proof (cases "P a")
    case True
    then have "a # vs = [] @ a # vs \<and> (\<forall>u \<in> set []. \<not> P u) \<and> P a \<and>
               erase_first P (a # vs) = [] @ vs"
      by simp
    then show ?thesis by blast
  next
    case False
    with Cons.prems have "\<exists>v \<in> set vs. P v" by auto
    from Cons.IH [OF this] obtain pre v post where
      h: "vs = pre @ v # post" "\<forall>u \<in> set pre. \<not> P u" "P v" "erase_first P vs = pre @ post"
      by blast
    with False have "a # vs = (a # pre) @ v # post \<and> (\<forall>u \<in> set (a # pre). \<not> P u) \<and> P v \<and>
               erase_first P (a # vs) = (a # pre) @ post"
      by simp
    then show ?thesis by blast
  qed
qed

lemma add_textured:
  assumes ne: "m_objects pool \<noteq> []"
    and nn: "\<not> point_isNull (dest mtd)"
    and t: "texture st = Some t"
    and pt: "texture (state (last (m_objects pool))) = Some pt"
  shows "add E st mtd dm pool =
     Inr ((updateHash E st mtd pool)\<lparr>m_objects :=
        butlast (m_objects pool) @
        (if state_eq (state (last (m_objects pool))) st
         then [(last (m_objects pool))\<lparr>drawMode := Triangles,
                 drawMethods := erase_first (add_hides E st mtd (last (m_objects pool)))
                                  (drawMethods (last (m_objects pool))) @ [mtd]\<rparr>]
         else [(last (m_objects pool))\<lparr>drawMethods :=
                   erase_first (add_hides E st mtd (last (m_objects pool)))
                     (drawMethods (last (m_objects pool)))\<rparr>,
               \<lparr>state = st, drawMode = dm, drawMethods = [mtd], action = None\<rparr>])\<rparr>)"
proof -
  have h: "add_hides E st mtd (last (m_objects pool)) =
        (\<lambda>m. dest m = dest mtd \<and>
            ((state_eq (state (last (m_objects pool))) st \<and> snd (rects m) = snd (rects mtd)) \<or>
             (texture_isOpaque E t \<and> texture_canSuperimposed E pt)))"
    by (rule ext) (simp add: add_hides_def t pt)
  show ?thesis
    using ne nn
    by (simp add: add_def Let_def updateHash_objects add_scan_textured [OF t pt] h)
qed

lemma method_count_last:
  "m_objects pool \<noteq> [] \<Longrightarrow>
   method_count pool =
     sum_list (map (\<lambda>obj. length (drawMethods obj)) (butlast (m_objects pool))) +
     length (drawMethods (last (m_objects pool)))"
proof -
  assume "m_objects pool \<noteq> []"
  then have "m_objects pool = butlast (m_objects pool) @ [last (m_objects pool)]"
    by simp
  then have "method_count pool =
       sum_list (map (\<lambda>obj. length (drawMethods obj))
         (butlast (m_objects pool) @ [last (m_objects pool)]))"
    unfolding method_count_def by simp
  then show ?thesis by simp
qed

text \<open>
  C3 (as amended): a call of \<^verbatim>\<open>add\<close> on a non-empty pool, with a method whose
  destination point is non-null and with textures bound in the new state and in the
  trailing object. If the trailing object holds a method with an identical destination
  that either has the same source rect under the same state, or is such that the
  texture of the new state is opaque and the texture of the trailing object itself can
  be superimposed, then the first such method is removed before the new method is
  appended: the methods before it and after it stay, the total method count of the pool
  is unchanged, and every object before the trailing one is as it was.
\<close>

theorem add_removes_first_hidden_method:
  assumes "m_objects pool \<noteq> []"
    and "\<not> point_isNull (dest mtd)"
    and "texture st = Some t"
    and "texture (state (last (m_objects pool))) = Some pt"
    and "\<exists>prevMtd \<in> set (drawMethods (last (m_objects pool))).
           add_hides E st mtd (last (m_objects pool)) prevMtd"
  shows "\<exists>pool' pre prevMtd post.
           add E st mtd dm pool = Inr pool' \<and>
           drawMethods (last (m_objects pool)) = pre @ prevMtd # post \<and>
           (\<forall>u \<in> set pre. \<not> add_hides E st mtd (last (m_objects pool)) u) \<and>
           add_hides E st mtd (last (m_objects pool)) prevMtd \<and>
           m_objects pool' =
             butlast (m_objects pool) @
             (if state_eq (state (last (m_objects pool))) st
              then [(last (m_objects pool))\<lparr>drawMode := Triangles,
                                            drawMethods := pre @ post @ [mtd]\<rparr>]
              else [(last (m_objects pool))\<lparr>drawMethods := pre @ post\<rparr>,
                    \<lparr>state = st, drawMode = dm, drawMethods = [mtd], action = None\<rparr>]) \<and>
           method_count pool' = method_count pool"
proof -
  let ?prev = "last (m_objects pool)"
  from erase_first_split [OF assms(5)] obtain pre prevMtd post where
    sp: "drawMethods ?prev = pre @ prevMtd # post"
        "\<forall>u \<in> set pre. \<not> add_hides E st mtd ?prev u"
        "add_hides E st mtd ?prev prevMtd"
        "erase_first (add_hides E st mtd ?prev) (drawMethods ?prev) = pre @ post"
    by blast
  let ?objs = "butlast (m_objects pool) @
             (if state_eq (state ?prev) st
              then [?prev\<lparr>drawMode := Triangles, drawMethods := pre @ post @ [mtd]\<rparr>]
              else [?prev\<lparr>drawMethods := pre @ post\<rparr>,
                    \<lparr>state = st, drawMode = dm, drawMethods = [mtd], action = None\<rparr>])"
  let ?pool' = "(updateHash E st mtd pool)\<lparr>m_objects := ?objs\<rparr>"
  have a: "add E st mtd dm pool = Inr ?pool'"
    using add_textured [OF assms(1-4), of E dm] sp(4) by simp
  have c: "method_count ?pool' = method_count pool"
    using method_count_last [OF assms(1)] sp(1) by (simp add: method_count_def)
  have o: "m_objects ?pool' = ?objs" by simp
  show ?thesis
    using a sp(1) sp(2) sp(3) o c by blast
qed

theorem add_removes_first_hidden_method_witness:
  "m_objects ex_pool_super \<noteq> [] \<and> \<not> point_isNull (dest ex_method) \<and>
   texture ex_state_opaque = Some 4 \<and>
   texture (state (last (m_objects ex_pool_super))) = Some 3 \<and>
   add_hides ex_E ex_state_opaque ex_method (last (m_objects ex_pool_super)) ex_method \<and>
   (\<exists>pool'. add ex_E ex_state_opaque ex_method TriangleStrip ex_pool_super = Inr pool' \<and>
           method_count pool' = method_count ex_pool_super) \<and>
   method_count ex_pool_super = 1 \<and>
   add ex_E ex_state_opaque ex_method TriangleStrip ex_pool_super =
     Inr (ex_pool\<lparr>m_objects :=
            [ex_object\<lparr>state := ex_state_super, drawMethods := []\<rparr>,
             \<lparr>state = ex_state_opaque, drawMode = TriangleStrip, drawMethods = [ex_method],
              action = None\<rparr>]\<rparr>)"
proof -
  have h1: "m_objects ex_pool_super \<noteq> []"
    by (simp add: ex_pool_super_def)
  have h2: "\<not> point_isNull (dest ex_method)"
    by (simp add: ex_method_def ex_point_def point_isNull_def)
  have h3: "texture ex_state_opaque = Some 4"
    by (simp add: ex_state_opaque_def)
  have h4: "texture (state (last (m_objects ex_pool_super))) = Some 3"
    by (simp add: ex_pool_super_def ex_state_super_def)
  have h5: "add_hides ex_E ex_state_opaque ex_method (last (m_objects ex_pool_super)) ex_method"
    by (simp add: add_hides_def ex_pool_super_def ex_state_super_def ex_state_opaque_def ex_E_def)
  have h6: "\<exists>prevMtd \<in> set (drawMethods (last (m_objects ex_pool_super))).
              add_hides ex_E ex_state_opaque ex_method (last (m_objects ex_pool_super)) prevMtd"
    using h5 by (simp add: ex_pool_super_def ex_object_def)
  have ex: "\<exists>pool'. add ex_E ex_state_opaque ex_method TriangleStrip ex_pool_super = Inr pool' \<and>
              method_count pool' = method_count ex_pool_super"
    using add_removes_first_hidden_method [OF h1 h2 h3 h4 h6, of TriangleStrip] by blast
  have c: "method_count ex_pool_super = 1"
    by (simp add: method_count_def ex_pool_super_def ex_object_def)
  have v: "add ex_E ex_state_opaque ex_method TriangleStrip ex_pool_super =
     Inr (ex_pool\<lparr>m_objects :=
            [ex_object\<lparr>state := ex_state_super, drawMethods := []\<rparr>,
             \<lparr>state = ex_state_opaque, drawMode = TriangleStrip, drawMethods = [ex_method],
              action = None\<rparr>]\<rparr>)"
    by (simp add: add_def updateHash_def Let_def ex_pool_super_def ex_pool_def ex_object_def
        ex_state_super_def ex_state_opaque_def ex_painter_def state_eq_def ex_E_def h2)
  show ?thesis using h1 h2 h3 h4 h5 ex c v by simp
qed

text \<open>
  C3 as stated fails: the trailing object holds a method with the destination of the
  new method, the new state differs and its texture is both opaque and able to be
  superimposed, and yet nothing is removed, because the texture of the trailing object
  cannot be superimposed. The pool then holds two methods instead of one.
\<close>

theorem add_keeps_method_counterexample:
  "m_objects ex_pool_one \<noteq> [] \<and> \<not> point_isNull (dest ex_method) \<and>
   ex_method \<in> set (drawMethods (last (m_objects ex_pool_one))) \<and>
   \<not> state_eq (state (last (m_objects ex_pool_one))) ex_state_super \<and>
   texture ex_state_super = Some 3 \<and>
   texture_isOpaque ex_E 3 \<and> texture_canSuperimposed ex_E 3 \<and>
   add ex_E ex_state_super ex_method TriangleStrip ex_pool_one =
     Inr (ex_pool\<lparr>m_objects :=
            [ex_object,
             \<lparr>state = ex_state_super, drawMode = TriangleStrip, drawMethods = [ex_method],
              action = None\<rparr>]\<rparr>) \<and>
   method_count ex_pool_one = 1 \<and>
   method_count (ex_pool\<lparr>m_objects :=
            [ex_object,
             \<lparr>state = ex_state_super, drawMode = TriangleStrip, drawMethods = [ex_method],
              action = None\<rparr>]\<rparr>) = 2"
proof -
  have h2: "\<not> point_isNull (dest ex_method)"
    by (simp add: ex_method_def ex_point_def point_isNull_def)
  have v: "add ex_E ex_state_super ex_method TriangleStrip ex_pool_one =
     Inr (ex_pool\<lparr>m_objects :=
            [ex_object,
             \<lparr>state = ex_state_super, drawMode = TriangleStrip, drawMethods = [ex_method],
              action = None\<rparr>]\<rparr>)"
    by (simp add: add_def updateHash_def Let_def ex_pool_one_def ex_pool_def ex_object_def
        ex_state_def ex_state_super_def ex_painter_def state_eq_def ex_E_def h2)
  show ?thesis
    using h2 v
    by (simp add: ex_pool_one_def ex_object_def ex_state_def ex_state_super_def
        state_eq_def ex_E_def method_count_def)
qed

lemma add_empty:
  "m_objects pool = [] \<Longrightarrow>
   add E st mtd dm pool =
     Inr ((updateHash E st mtd pool)\<lparr>m_objects :=
            [\<lparr>state = st, drawMode = dm, drawMethods = [mtd], action = None\<rparr>]\<rparr>)"
  by (simp add: add_def Let_def updateHash_objects)

lemma add_no_dest:
  assumes "m_objects pool \<noteq> []"
    and "point_isNull (dest mtd) \<or> (\<forall>m \<in> set (drawMethods (last (m_objects pool))). dest m \<noteq> dest mtd)"
  shows "add E st mtd dm pool =
     Inr ((updateHash E st mtd pool)\<lparr>m_objects :=
        butlast (m_objects pool) @
        (if state_eq (state (last (m_objects pool))) st
         then [(last (m_objects pool))\<lparr>drawMode := Triangles,
                 drawMethods := drawMethods (last (m_objects pool)) @ [mtd]\<rparr>]
         else [last (m_objects pool),
               \<lparr>state = st, drawMode = dm, drawMethods = [mtd], action = None\<rparr>])\<rparr>)"
proof (cases "point_isNull (dest mtd)")
  case True
  with assms(1) show ?thesis
    by (simp add: add_def Let_def updateHash_objects)
next
  case False
  with assms(2) have "\<forall>m \<in> set (drawMethods (last (m_objects pool))). dest m \<noteq> dest mtd"
    by simp
  from add_scan_no_dest [OF this] False assms(1) show ?thesis
    by (simp add: add_def Let_def updateHash_objects)
qed

lemma add_all_merge:
  assumes "m_objects pool = [obj]"
    and "\<forall>c \<in> set cs. state_eq (state obj) (fst c)"
    and "distinct (filter (\<lambda>p. \<not> point_isNull p)
           (map dest (drawMethods obj) @ map (\<lambda>c. dest (fst (snd c))) cs))"
    and "cs \<noteq> []"
  shows "\<exists>pool'. add_all E cs pool = Inr pool' \<and>
           m_objects pool' =
             [obj\<lparr>drawMode := Triangles,
                  drawMethods := drawMethods obj @ map (\<lambda>c. fst (snd c)) cs\<rparr>]"
  using assms
proof (induction cs arbitrary: pool obj)
  case Nil
  then show ?case by simp
next
  case (Cons c cs)
  obtain st mtd dm where c: "c = (st, mtd, dm)" by (cases c) auto
  let ?obj1 = "obj\<lparr>drawMode := Triangles, drawMethods := drawMethods obj @ [mtd]\<rparr>"
  let ?pool1 = "(updateHash E st mtd pool)\<lparr>m_objects := [?obj1]\<rparr>"
  have eq: "state_eq (state obj) st"
    using Cons.prems(2) c by simp
  have nd: "point_isNull (dest mtd) \<or> (\<forall>m \<in> set (drawMethods obj). dest m \<noteq> dest mtd)"
    using Cons.prems(3) c by auto
  have step: "add E st mtd dm pool = Inr ?pool1"
    using add_no_dest [of pool mtd E st dm] Cons.prems(1) eq nd by simp
  show ?case
  proof (cases "cs = []")
    case True
    with step c show ?thesis by simp
  next
    case False
    have p1: "m_objects ?pool1 = [?obj1]" by simp
    have p2: "\<forall>c \<in> set cs. state_eq (state ?obj1) (fst c)"
      using Cons.prems(2) by simp
    have p3: "distinct (filter (\<lambda>p. \<not> point_isNull p)
           (map dest (drawMethods ?obj1) @ map (\<lambda>c. dest (fst (snd c))) cs))"
      using Cons.prems(3) c by simp
    from Cons.IH [OF p1 p2 p3 False] obtain pool' where
      r: "add_all E cs ?pool1 = Inr pool'"
         "m_objects pool' =
            [?obj1\<lparr>drawMode := Triangles,
                   drawMethods := drawMethods ?obj1 @ map (\<lambda>c. fst (snd c)) cs\<rparr>]"
      by blast
    have "add_all E (c # cs) pool = Inr pool'"
      using step r(1) c by simp
    moreover have "m_objects pool' =
             [obj\<lparr>drawMode := Triangles,
                  drawMethods := drawMethods obj @ map (\<lambda>c. fst (snd c)) (c # cs)\<rparr>]"
      using r(2) c by simp
    ultimately show ?thesis by blast
  qed
qed

lemma state_eq_sym: "state_eq a b \<Longrightarrow> state_eq b a"
  by (auto simp: state_eq_def)

lemma state_eq_trans: "state_eq a b \<Longrightarrow> state_eq b c \<Longrightarrow> state_eq a c"
  by (auto simp: state_eq_def)

lemma add_last_state:
  assumes "add E st mtd dm pool = Inr pool'"
  shows "m_objects pool' \<noteq> [] \<and> state_eq (state (last (m_objects pool'))) st"
proof (cases "m_objects pool = []")
  case True
  with assms show ?thesis
    by (auto simp: add_empty state_eq_def)
next
  case False
  with assms show ?thesis
    by (auto simp: add_def Let_def updateHash_objects state_eq_def split: sum.splits if_splits)
qed

lemma add_new_object:
  assumes "add E st mtd dm pool = Inr pool'"
    and "m_objects pool \<noteq> []"
    and "\<not> state_eq (state (last (m_objects pool))) st"
  shows "\<exists>ms. m_objects pool' =
           butlast (m_objects pool) @
           [(last (m_objects pool))\<lparr>drawMethods := ms\<rparr>,
            \<lparr>state = st, drawMode = dm, drawMethods = [mtd], action = None\<rparr>]"
proof -
  let ?scan = "if \<not> point_isNull (dest mtd)
               then add_scan E (state_eq (state (last (m_objects pool))) st) st
                      (state (last (m_objects pool))) mtd
                      (drawMethods (last (m_objects pool)))
               else Inr (drawMethods (last (m_objects pool)))"
  obtain ms where ms: "?scan = Inr ms"
    using assms by (cases ?scan) (auto simp: add_def Let_def updateHash_objects)
  have "m_objects pool' =
           butlast (m_objects pool) @
           [(last (m_objects pool))\<lparr>drawMethods := ms\<rparr>,
            \<lparr>state = st, drawMode = dm, drawMethods = [mtd], action = None\<rparr>]"
    using assms ms by (auto simp: add_def Let_def updateHash_objects split: if_splits)
  then show ?thesis by blast
qed

text \<open>
  C4: a sequence of calls of \<^verbatim>\<open>add\<close> into an empty pool whose states all equal the
  state of the first call, and in which no two methods share a non-null destination
  (so that the removal step never fires), leaves exactly one object; it holds every
  method in call order under the state of the first call, and its draw mode is that of
  the first call while it holds one method and \<open>Triangles\<close> as soon as a second one is
  merged. Conversely, when two consecutive calls of \<^verbatim>\<open>add\<close> have states that differ,
  the second one starts a new object behind the trailing one.
\<close>

theorem add_merges_equal_states:
  "(m_objects pool = [] \<and> (\<forall>c \<in> set cs. state_eq st (fst c)) \<and>
    distinct (filter (\<lambda>p. \<not> point_isNull p)
      (map (\<lambda>c. dest (fst (snd c))) ((st, mtd, dm) # cs))) \<longrightarrow>
      (\<exists>pool'. add_all E ((st, mtd, dm) # cs) pool = Inr pool' \<and>
         m_objects pool' =
           [\<lparr>state = st, drawMode = (if cs = [] then dm else Triangles),
             drawMethods = mtd # map (\<lambda>c. fst (snd c)) cs, action = None\<rparr>])) \<and>
   (add E s1 m1 d1 pool = Inr p1 \<and> add E s2 m2 d2 p1 = Inr p2 \<and> \<not> state_eq s1 s2 \<longrightarrow>
      m_objects p1 \<noteq> [] \<and> state_eq (state (last (m_objects p1))) s1 \<and>
      (\<exists>ms. m_objects p2 =
         butlast (m_objects p1) @
         [(last (m_objects p1))\<lparr>drawMethods := ms\<rparr>,
          \<lparr>state = s2, drawMode = d2, drawMethods = [m2], action = None\<rparr>]))"
proof (rule conjI; rule impI)
  assume a: "m_objects pool = [] \<and> (\<forall>c \<in> set cs. state_eq st (fst c)) \<and>
    distinct (filter (\<lambda>p. \<not> point_isNull p)
      (map (\<lambda>c. dest (fst (snd c))) ((st, mtd, dm) # cs)))"
  let ?obj = "\<lparr>state = st, drawMode = dm, drawMethods = [mtd], action = None\<rparr>"
  let ?pool1 = "(updateHash E st mtd pool)\<lparr>m_objects := [?obj]\<rparr>"
  have first: "add E st mtd dm pool = Inr ?pool1"
    using a by (simp add: add_empty)
  show "\<exists>pool'. add_all E ((st, mtd, dm) # cs) pool = Inr pool' \<and>
         m_objects pool' =
           [\<lparr>state = st, drawMode = (if cs = [] then dm else Triangles),
             drawMethods = mtd # map (\<lambda>c. fst (snd c)) cs, action = None\<rparr>]"
  proof (cases "cs = []")
    case True
    with first show ?thesis by simp
  next
    case False
    have p1: "m_objects ?pool1 = [?obj]" by simp
    have p2: "\<forall>c \<in> set cs. state_eq (state ?obj) (fst c)"
      using a by simp
    have p3: "distinct (filter (\<lambda>p. \<not> point_isNull p)
           (map dest (drawMethods ?obj) @ map (\<lambda>c. dest (fst (snd c))) cs))"
      using a by simp
    from add_all_merge [OF p1 p2 p3 False, of E] first False show ?thesis
      by auto
  qed
next
  assume b: "add E s1 m1 d1 pool = Inr p1 \<and> add E s2 m2 d2 p1 = Inr p2 \<and> \<not> state_eq s1 s2"
  from add_last_state [of E s1 m1 d1 pool p1] b
  have l: "m_objects p1 \<noteq> []" "state_eq (state (last (m_objects p1))) s1"
    by simp_all
  have ne: "\<not> state_eq (state (last (m_objects p1))) s2"
    using l(2) b state_eq_sym state_eq_trans by blast
  from add_new_object [of E s2 m2 d2 p1 p2] b l(1) ne
  have "\<exists>ms. m_objects p2 =
         butlast (m_objects p1) @
         [(last (m_objects p1))\<lparr>drawMethods := ms\<rparr>,
          \<lparr>state = s2, drawMode = d2, drawMethods = [m2], action = None\<rparr>]"
    by simp
  with l show "m_objects p1 \<noteq> [] \<and> state_eq (state (last (m_objects p1))) s1 \<and>
      (\<exists>ms. m_objects p2 =
         butlast (m_objects p1) @
         [(last (m_objects p1))\<lparr>drawMethods := ms\<rparr>,
          \<lparr>state = s2, drawMode = d2, drawMethods = [m2], action = None\<rparr>])"
    by simp
qed

theorem add_merges_equal_states_witness:
  "(\<exists>pool'. add_all ex_E [(ex_state, ex_method, TriangleStrip),
                           (ex_state, ex_method_b, TriangleStrip)] ex_pool = Inr pool' \<and>
      m_objects pool' =
        [\<lparr>state = ex_state, drawMode = Triangles, drawMethods = [ex_method, ex_method_b],
          action = None\<rparr>]) \<and>
   add ex_E ex_state ex_method TriangleStrip ex_pool = Inr ex_pool_one \<and>
   \<not> state_eq ex_state ex_state_super \<and>
   (\<exists>p2 ms. add ex_E ex_state_super ex_method_b TriangleStrip ex_pool_one = Inr p2 \<and>
      m_objects p2 =
        [ex_object\<lparr>drawMethods := ms\<rparr>,
         \<lparr>state = ex_state_super, drawMode = TriangleStrip, drawMethods = [ex_method_b],
          action = None\<rparr>])"
proof -
  have e: "m_objects ex_pool = []"
    by (simp add: ex_pool_def)
  have q: "\<forall>c \<in> set [(ex_state, ex_method_b, TriangleStrip)]. state_eq ex_state (fst c)"
    by (simp add: state_eq_def)
  have d: "distinct (filter (\<lambda>p. \<not> point_isNull p)
      (map (\<lambda>c. dest (fst (snd c)))
         ((ex_state, ex_method, TriangleStrip) # [(ex_state, ex_method_b, TriangleStrip)])))"
    by (simp add: ex_method_b_def ex_method_def ex_point_def point_isNull_def)
  have n: "\<not> point_isNull (dest ex_method_b)"
    by (simp add: ex_method_b_def point_isNull_def)
  have a1: "add ex_E ex_state ex_method TriangleStrip ex_pool = Inr ex_pool_one"
    by (simp add: add_empty e updateHash_def ex_pool_one_def ex_pool_def ex_object_def)
  have ne: "\<not> state_eq ex_state ex_state_super"
    by (simp add: state_eq_def ex_state_def ex_state_super_def)
  have a2: "add ex_E ex_state_super ex_method_b TriangleStrip ex_pool_one =
      Inr (ex_pool\<lparr>m_objects :=
        [ex_object,
         \<lparr>state = ex_state_super, drawMode = TriangleStrip, drawMethods = [ex_method_b],
          action = None\<rparr>]\<rparr>)"
    using n ne
    by (simp add: add_def updateHash_def Let_def ex_pool_one_def ex_pool_def ex_object_def
        ex_method_b_def ex_method_def ex_point_def)
  note T = add_merges_equal_states
      [where pool = ex_pool and cs = "[(ex_state, ex_method_b, TriangleStrip)]"
         and st = ex_state and mtd = ex_method and dm = TriangleStrip and E = ex_E
         and ?s1.0 = ex_state and ?m1.0 = ex_method and ?d1.0 = TriangleStrip
         and ?p1.0 = ex_pool_one and ?s2.0 = ex_state_super and ?m2.0 = ex_method_b
         and ?d2.0 = TriangleStrip
         and ?p2.0 = "ex_pool\<lparr>m_objects :=
             [ex_object,
              \<lparr>state = ex_state_super, drawMode = TriangleStrip, drawMethods = [ex_method_b],
               action = None\<rparr>]\<rparr>"]
  have part1: "\<exists>pool'. add_all ex_E [(ex_state, ex_method, TriangleStrip),
                           (ex_state, ex_method_b, TriangleStrip)] ex_pool = Inr pool' \<and>
      m_objects pool' =
        [\<lparr>state = ex_state, drawMode = Triangles, drawMethods = [ex_method, ex_method_b],
          action = None\<rparr>]"
    using T [THEN conjunct1] e q d by simp
  have "\<exists>ms. m_objects (ex_pool\<lparr>m_objects :=
             [ex_object,
              \<lparr>state = ex_state_super, drawMode = TriangleStrip, drawMethods = [ex_method_b],
               action = None\<rparr>]\<rparr>) =
         butlast (m_objects ex_pool_one) @
         [(last (m_objects ex_pool_one))\<lparr>drawMethods := ms\<rparr>,
          \<lparr>state = ex_state_super, drawMode = TriangleStrip, drawMethods = [ex_method_b],
           action = None\<rparr>]"
    using T [THEN conjunct2] a1 a2 ne by simp
  then have part2: "\<exists>p2 ms. add ex_E ex_state_super ex_method_b TriangleStrip ex_pool_one = Inr p2 \<and>
      m_objects p2 =
        [ex_object\<lparr>drawMethods := ms\<rparr>,
         \<lparr>state = ex_state_super, drawMode = TriangleStrip, drawMethods = [ex_method_b],
          action = None\<rparr>]"
    using a2 by (simp add: ex_pool_one_def)
  show ?thesis using part1 a1 ne part2 by simp
qed

section \<open>Properties of addRepeated\<close>

lemma find_if_props:
  "find_if P vs \<le> length vs \<and>
   (find_if P vs < length vs \<longrightarrow> P (vs ! find_if P vs)) \<and>
   (\<forall>i < find_if P vs. \<not> P (vs ! i))"
proof (induction vs)
  case Nil
  then show ?case by simp
next
  case (Cons a vs)
  show ?case
  proof (cases "P a")
    case True
    then show ?thesis by simp
  next
    case False
    have "\<forall>i < Suc (find_if P vs). \<not> P ((a # vs) ! i)"
    proof (intro allI impI)
      fix i assume "i < Suc (find_if P vs)"
      with Cons.IH False show "\<not> P ((a # vs) ! i)" by (cases i) auto
    qed
    with Cons.IH False show ?thesis by simp
  qed
qed

lemma find_if_eq:
  "j < length vs \<Longrightarrow> P (vs ! j) \<Longrightarrow> (\<forall>i < j. \<not> P (vs ! i)) \<Longrightarrow> find_if P vs = j"
proof -
  assume j: "j < length vs" and p: "P (vs ! j)" and n: "\<forall>i < j. \<not> P (vs ! i)"
  from find_if_props [of P vs] p have "\<not> j < find_if P vs" by blast
  moreover have "\<not> find_if P vs < j"
  proof
    assume l: "find_if P vs < j"
    with j have "find_if P vs < length vs" by simp
    with find_if_props [of P vs] have "P (vs ! find_if P vs)" by blast
    with n l show False by blast
  qed
  ultimately show ?thesis by simp
qed

lemma repeat_target_props:
  assumes "search_start pool \<le> length (m_objects pool)"
  shows "search_start pool \<le> repeat_target st pool"
    and "repeat_target st pool \<le> length (m_objects pool)"
    and "repeat_target st pool < length (m_objects pool) \<Longrightarrow>
           state_eq (state (m_objects pool ! repeat_target st pool)) st"
    and "search_start pool \<le> i \<Longrightarrow> i < repeat_target st pool \<Longrightarrow>
           \<not> state_eq (state (m_objects pool ! i)) st"
proof -
  let ?k = "search_start pool"
  let ?P = "\<lambda>obj. state_eq (state obj) st"
  let ?f = "find_if ?P (drop ?k (m_objects pool))"
  note fp = find_if_props [of ?P "drop ?k (m_objects pool)"]
  show "?k \<le> repeat_target st pool" by (simp add: repeat_target_def)
  have "?f \<le> length (m_objects pool) - ?k"
    using fp by simp
  then show le: "repeat_target st pool \<le> length (m_objects pool)"
    using assms by (simp add: repeat_target_def)
  show "state_eq (state (m_objects pool ! repeat_target st pool)) st"
    if "repeat_target st pool < length (m_objects pool)"
  proof -
    from that assms have "?f < length (drop ?k (m_objects pool))"
      by (simp add: repeat_target_def)
    with fp have "?P (drop ?k (m_objects pool) ! ?f)" by blast
    with assms show ?thesis by (simp add: repeat_target_def)
  qed
  show "\<not> state_eq (state (m_objects pool ! i)) st"
    if "?k \<le> i" and "i < repeat_target st pool"
  proof -
    from that have "i - ?k < ?f" by (simp add: repeat_target_def)
    with fp have "\<not> ?P (drop ?k (m_objects pool) ! (i - ?k))" by blast
    moreover have "i < length (m_objects pool)" using that(2) le by simp
    ultimately show ?thesis using that(1) assms by simp
  qed
qed

lemma repeat_target_eq:
  assumes "search_start pool \<le> j" and "j < length (m_objects pool)"
    and "state_eq (state (m_objects pool ! j)) st"
    and "\<forall>i. search_start pool \<le> i \<and> i < j \<longrightarrow> \<not> state_eq (state (m_objects pool ! i)) st"
  shows "repeat_target st pool = j"
proof -
  let ?k = "search_start pool"
  let ?P = "\<lambda>obj. state_eq (state obj) st"
  have a: "j - ?k < length (drop ?k (m_objects pool))" using assms by simp
  have b: "?P (drop ?k (m_objects pool) ! (j - ?k))" using assms by simp
  have c: "\<forall>i < j - ?k. \<not> ?P (drop ?k (m_objects pool) ! i)"
  proof (intro allI impI)
    fix i assume "i < j - ?k"
    then have "?k \<le> ?k + i \<and> ?k + i < j" by simp
    with assms(4) have "\<not> state_eq (state (m_objects pool ! (?k + i))) st" by blast
    moreover have "?k + i < length (m_objects pool)" using \<open>i < j - ?k\<close> assms(2) by simp
    ultimately show "\<not> ?P (drop ?k (m_objects pool) ! i)" by simp
  qed
  from find_if_eq [OF a b c] assms(1) show ?thesis by (simp add: repeat_target_def)
qed

lemma addRepeated_eq:
  assumes "search_start pool \<le> length (m_objects pool)"
  shows "addRepeated E st mtd dm pool =
     Inr ((updateHash E st mtd pool)\<lparr>m_objects :=
        (if repeat_target st pool < length (m_objects pool)
         then (m_objects pool)[repeat_target st pool :=
                (m_objects pool ! repeat_target st pool)\<lparr>drawMethods :=
                   drawMethods (m_objects pool ! repeat_target st pool) @ [mtd]\<rparr>]
         else m_objects pool @
              [\<lparr>state = st, drawMode = dm, drawMethods = [mtd], action = None\<rparr>])\<rparr>)"
proof -
  have le: "repeat_target st pool \<le> length (m_objects pool)"
    using repeat_target_props(2) [OF assms] .
  have ss: "unat (if m_indexToStartSearching pool \<noteq> 0
                  then m_indexToStartSearching pool - 1 else (0 :: 16 word)) = search_start pool"
    by (simp add: search_start_def)
  have rt: "search_start pool +
            find_if (\<lambda>obj. state_eq (state obj) st) (drop (search_start pool) (m_objects pool)) =
            repeat_target st pool"
    by (simp add: repeat_target_def)
  have "addRepeated E st mtd dm pool =
     (if repeat_target st pool \<noteq> length (m_objects pool)
      then Inr ((updateHash E st mtd pool)\<lparr>m_objects :=
             (m_objects pool)[repeat_target st pool :=
                (m_objects pool ! repeat_target st pool)\<lparr>drawMethods :=
                   drawMethods (m_objects pool ! repeat_target st pool) @ [mtd]\<rparr>]\<rparr>)
      else Inr ((updateHash E st mtd pool)\<lparr>m_objects :=
             m_objects pool @
              [\<lparr>state = st, drawMode = dm, drawMethods = [mtd], action = None\<rparr>]\<rparr>))"
    unfolding addRepeated_def Let_def updateHash_objects updateHash_index ss rt
    using assms by simp
  with le show ?thesis by (cases "repeat_target st pool < length (m_objects pool)") simp_all
qed

text \<open>
  C6: \<^verbatim>\<open>addRepeated\<close> searches the object list of the current pool from the
  remembered start (position \<open>m_indexToStartSearching - 1\<close>; the whole list when the
  index is zero, that is, unset) for the first object whose state equals the given
  state. It appends the method to that object when there is one and appends a new
  object otherwise. Hence a second call with an equal state, made after objects with
  other states were appended and after the start was advanced but not past the object
  of the first call, puts its method into the same object, right behind the first.
\<close>

theorem addRepeated_appends_to_first_equal_state:
  assumes "search_start pool \<le> length (m_objects pool)"
  shows "\<exists>p1. addRepeated E st mtd dm pool = Inr p1 \<and>
     search_start pool \<le> repeat_target st pool \<and>
     repeat_target st pool \<le> length (m_objects pool) \<and>
     (\<forall>i. search_start pool \<le> i \<and> i < repeat_target st pool \<longrightarrow>
          \<not> state_eq (state (m_objects pool ! i)) st) \<and>
     (repeat_target st pool < length (m_objects pool) \<longrightarrow>
        state_eq (state (m_objects pool ! repeat_target st pool)) st \<and>
        m_objects p1 =
          (m_objects pool)[repeat_target st pool :=
             (m_objects pool ! repeat_target st pool)\<lparr>drawMethods :=
                drawMethods (m_objects pool ! repeat_target st pool) @ [mtd]\<rparr>]) \<and>
     (repeat_target st pool = length (m_objects pool) \<longrightarrow>
        m_objects p1 =
          m_objects pool @ [\<lparr>state = st, drawMode = dm, drawMethods = [mtd], action = None\<rparr>]) \<and>
     (\<forall>p2 extra.
        m_objects p2 = m_objects p1 @ extra \<and>
        (\<forall>obj \<in> set extra. \<not> state_eq (state obj) st) \<and>
        search_start pool \<le> search_start p2 \<and>
        search_start p2 \<le> repeat_target st pool \<longrightarrow>
        (\<exists>p3. addRepeated E st mtd2 dm2 p2 = Inr p3 \<and>
              length (m_objects p3) = length (m_objects p2) \<and>
              drawMethods (m_objects p3 ! repeat_target st pool) =
                (if repeat_target st pool < length (m_objects pool)
                 then drawMethods (m_objects pool ! repeat_target st pool) else []) @
                [mtd, mtd2] \<and>
              (\<forall>i < length (m_objects p2). i \<noteq> repeat_target st pool \<longrightarrow>
                   m_objects p3 ! i = m_objects p2 ! i)))"
proof -
  let ?k = "search_start pool"
  let ?j = "repeat_target st pool"
  let ?objs = "m_objects pool"
  let ?old = "if ?j < length ?objs then drawMethods (?objs ! ?j) else []"
  let ?objs1 = "if ?j < length ?objs
         then ?objs[?j := (?objs ! ?j)\<lparr>drawMethods := drawMethods (?objs ! ?j) @ [mtd]\<rparr>]
         else ?objs @ [\<lparr>state = st, drawMode = dm, drawMethods = [mtd], action = None\<rparr>]"
  let ?p1 = "(updateHash E st mtd pool)\<lparr>m_objects := ?objs1\<rparr>"
  note rp = repeat_target_props [OF assms, where st = st]
  have first: "addRepeated E st mtd dm pool = Inr ?p1"
    using addRepeated_eq [OF assms] .
  have o1: "m_objects ?p1 = ?objs1" by simp
  have before: "\<forall>i. ?k \<le> i \<and> i < ?j \<longrightarrow> \<not> state_eq (state (?objs ! i)) st"
    using rp(4) by blast
  have at: "?j < length ?objs \<longrightarrow> state_eq (state (?objs ! ?j)) st"
    using rp(3) by blast
  have j1: "?j < length ?objs1"
    using rp(2) by (cases "?j < length ?objs") simp_all
  have s1: "state_eq (state (?objs1 ! ?j)) st"
  proof (cases "?j < length ?objs")
    case True
    with at show ?thesis by simp
  next
    case False
    with rp(2) have "?j = length ?objs" by simp
    then show ?thesis by (simp add: state_eq_def)
  qed
  have m1: "drawMethods (?objs1 ! ?j) = ?old @ [mtd]"
  proof (cases "?j < length ?objs")
    case True
    then show ?thesis by simp
  next
    case False
    with rp(2) have "?j = length ?objs" by simp
    then show ?thesis by simp
  qed
  have b1: "\<forall>i. ?k \<le> i \<and> i < ?j \<longrightarrow> \<not> state_eq (state (?objs1 ! i)) st"
  proof (intro allI impI)
    fix i assume i: "?k \<le> i \<and> i < ?j"
    with rp(2) have "i < length ?objs" by simp
    with i have "?objs1 ! i = ?objs ! i" by (simp add: nth_append)
    with before i show "\<not> state_eq (state (?objs1 ! i)) st" by simp
  qed
  have second: "\<exists>p3. addRepeated E st mtd2 dm2 p2 = Inr p3 \<and>
              length (m_objects p3) = length (m_objects p2) \<and>
              drawMethods (m_objects p3 ! ?j) = ?old @ [mtd, mtd2] \<and>
              (\<forall>i < length (m_objects p2). i \<noteq> ?j \<longrightarrow> m_objects p3 ! i = m_objects p2 ! i)"
    if h: "m_objects p2 = m_objects ?p1 @ extra \<and>
        (\<forall>obj \<in> set extra. \<not> state_eq (state obj) st) \<and>
        ?k \<le> search_start p2 \<and> search_start p2 \<le> ?j"
    for p2 extra
  proof -
    have o2: "m_objects p2 = ?objs1 @ extra" using h by simp
    have j2: "?j < length (m_objects p2)" using j1 o2 by simp
    have n2: "m_objects p2 ! ?j = ?objs1 ! ?j" using j1 o2 by (simp add: nth_append)
    have k2: "search_start p2 \<le> length (m_objects p2)" using h j2 by simp
    have b2: "\<forall>i. search_start p2 \<le> i \<and> i < ?j \<longrightarrow> \<not> state_eq (state (m_objects p2 ! i)) st"
    proof (intro allI impI)
      fix i assume i: "search_start p2 \<le> i \<and> i < ?j"
      with j1 o2 have "m_objects p2 ! i = ?objs1 ! i" by (simp add: nth_append)
      moreover from i h have "?k \<le> i \<and> i < ?j" by simp
      ultimately show "\<not> state_eq (state (m_objects p2 ! i)) st" using b1 by simp
    qed
    have t2: "repeat_target st p2 = ?j"
      using repeat_target_eq [of p2 ?j st] h j2 s1 n2 b2 by simp
    let ?p3 = "(updateHash E st mtd2 p2)\<lparr>m_objects :=
        (m_objects p2)[?j := (m_objects p2 ! ?j)\<lparr>drawMethods :=
                   drawMethods (m_objects p2 ! ?j) @ [mtd2]\<rparr>]\<rparr>"
    have r: "addRepeated E st mtd2 dm2 p2 = Inr ?p3"
      using addRepeated_eq [OF k2, of E st mtd2 dm2] t2 j2 by simp
    have l: "length (m_objects ?p3) = length (m_objects p2)" by simp
    have d: "drawMethods (m_objects ?p3 ! ?j) = ?old @ [mtd, mtd2]"
      using j2 n2 m1 by simp
    have u: "\<forall>i < length (m_objects p2). i \<noteq> ?j \<longrightarrow> m_objects ?p3 ! i = m_objects p2 ! i"
      by simp
    show ?thesis using r l d u by blast
  qed
  have c5: "?j < length ?objs \<longrightarrow>
        state_eq (state (?objs ! ?j)) st \<and>
        m_objects ?p1 = ?objs[?j := (?objs ! ?j)\<lparr>drawMethods := drawMethods (?objs ! ?j) @ [mtd]\<rparr>]"
    using at by simp
  have c6: "?j = length ?objs \<longrightarrow>
        m_objects ?p1 = ?objs @ [\<lparr>state = st, drawMode = dm, drawMethods = [mtd], action = None\<rparr>]"
    by simp
  show ?thesis
    apply (rule exI [of _ ?p1])
    using first rp(1) rp(2) before c5 c6 second by blast
qed

theorem addRepeated_appends_to_first_equal_state_witness:
  "search_start ex_pool_super \<le> length (m_objects ex_pool_super) \<and>
   repeat_target ex_state ex_pool_super = length (m_objects ex_pool_super) \<and>
   (\<exists>p1. addRepeated ex_E ex_state ex_method Triangles ex_pool_super = Inr p1 \<and>
      m_objects p1 =
        m_objects ex_pool_super @
        [\<lparr>state = ex_state, drawMode = Triangles, drawMethods = [ex_method], action = None\<rparr>] \<and>
      (\<exists>p3. addRepeated ex_E ex_state ex_method_b Triangles
               (p1\<lparr>m_objects := m_objects p1 @ [ex_object\<lparr>state := ex_state_opaque\<rparr>],
                   m_indexToStartSearching := 2\<rparr>) = Inr p3 \<and>
            length (m_objects p3) = 3 \<and>
            drawMethods (m_objects p3 ! 1) = [ex_method, ex_method_b]))"
proof -
  have k: "search_start ex_pool_super = 0"
    by (simp add: search_start_def ex_pool_super_def ex_pool_def)
  have len: "length (m_objects ex_pool_super) = 1"
    by (simp add: ex_pool_super_def)
  have h: "search_start ex_pool_super \<le> length (m_objects ex_pool_super)"
    using k by simp
  have t: "repeat_target ex_state ex_pool_super = 1"
    unfolding repeat_target_def k
    by (simp add: ex_pool_super_def state_eq_def ex_state_super_def ex_state_def)
  from addRepeated_appends_to_first_equal_state
         [OF h, where E = ex_E and st = ex_state and mtd = ex_method and dm = Triangles
            and ?mtd2.0 = ex_method_b and ?dm2.0 = Triangles]
  obtain p1 where p1:
    "addRepeated ex_E ex_state ex_method Triangles ex_pool_super = Inr p1"
    "repeat_target ex_state ex_pool_super = length (m_objects ex_pool_super) \<longrightarrow>
        m_objects p1 =
          m_objects ex_pool_super @
          [\<lparr>state = ex_state, drawMode = Triangles, drawMethods = [ex_method], action = None\<rparr>]"
    "\<forall>p2 extra.
        m_objects p2 = m_objects p1 @ extra \<and>
        (\<forall>obj \<in> set extra. \<not> state_eq (state obj) ex_state) \<and>
        search_start ex_pool_super \<le> search_start p2 \<and>
        search_start p2 \<le> repeat_target ex_state ex_pool_super \<longrightarrow>
        (\<exists>p3. addRepeated ex_E ex_state ex_method_b Triangles p2 = Inr p3 \<and>
              length (m_objects p3) = length (m_objects p2) \<and>
              drawMethods (m_objects p3 ! repeat_target ex_state ex_pool_super) =
                (if repeat_target ex_state ex_pool_super < length (m_objects ex_pool_super)
                 then drawMethods (m_objects ex_pool_super ! repeat_target ex_state ex_pool_super)
                 else []) @
                [ex_method, ex_method_b] \<and>
              (\<forall>i < length (m_objects p2). i \<noteq> repeat_target ex_state ex_pool_super \<longrightarrow>
                   m_objects p3 ! i = m_objects p2 ! i))"
    by blast
  have o1: "m_objects p1 =
          m_objects ex_pool_super @
          [\<lparr>state = ex_state, drawMode = Triangles, drawMethods = [ex_method], action = None\<rparr>]"
    using p1(2) t len by simp
  let ?p2 = "p1\<lparr>m_objects := m_objects p1 @ [ex_object\<lparr>state := ex_state_opaque\<rparr>],
                m_indexToStartSearching := 2\<rparr>"
  have k2: "search_start ?p2 = 1"
    by (simp add: search_start_def)
  have x: "\<forall>obj \<in> set [ex_object\<lparr>state := ex_state_opaque\<rparr>]. \<not> state_eq (state obj) ex_state"
    by (simp add: state_eq_def ex_state_opaque_def ex_state_def)
  have "m_objects ?p2 = m_objects p1 @ [ex_object\<lparr>state := ex_state_opaque\<rparr>] \<and>
        (\<forall>obj \<in> set [ex_object\<lparr>state := ex_state_opaque\<rparr>]. \<not> state_eq (state obj) ex_state) \<and>
        search_start ex_pool_super \<le> search_start ?p2 \<and>
        search_start ?p2 \<le> repeat_target ex_state ex_pool_super"
    using x k k2 t by simp
  with p1(3) obtain p3 where p3:
    "addRepeated ex_E ex_state ex_method_b Triangles ?p2 = Inr p3"
    "length (m_objects p3) = length (m_objects ?p2)"
    "drawMethods (m_objects p3 ! repeat_target ex_state ex_pool_super) =
                (if repeat_target ex_state ex_pool_super < length (m_objects ex_pool_super)
                 then drawMethods (m_objects ex_pool_super ! repeat_target ex_state ex_pool_super)
                 else []) @
                [ex_method, ex_method_b]"
    by blast
  have l3: "length (m_objects p3) = 3"
    using p3(2) o1 len by simp
  have d3: "drawMethods (m_objects p3 ! 1) = [ex_method, ex_method_b]"
    using p3(3) t len by simp
  show ?thesis
    using h t len p1(1) o1 p3(1) l3 d3 by auto
qed

section \<open>Textures in the removal scan\<close>

lemma add_scan_fault:
  "add_scan E sameState st prevState mtd ms = Inl e \<Longrightarrow>
   e = NullTextureInScan \<and> (\<exists>m \<in> set ms. dest m = dest mtd) \<and>
   (texture st = None \<or> texture prevState = None)"
proof (induction ms)
  case Nil
  then show ?case by simp
next
  case (Cons a ms)
  then show ?case
    by (cases "add_scan E sameState st prevState mtd ms")
       (auto split: if_splits option.splits)
qed

lemma add_scan_subset:
  "add_scan E sameState st prevState mtd ms = Inr ms' \<Longrightarrow> set ms' \<subseteq> set ms"
proof (induction ms arbitrary: ms')
  case Nil
  then show ?case by simp
next
  case (Cons a ms)
  then show ?case
    by (cases "add_scan E sameState st prevState mtd ms")
       (auto split: if_splits option.splits)
qed

lemma add_fault:
  assumes "add E st mtd dm pool = Inl e"
  shows "e = NullTextureInScan \<and> m_objects pool \<noteq> [] \<and> \<not> point_isNull (dest mtd) \<and>
         (\<exists>m \<in> set (drawMethods (last (m_objects pool))). dest m = dest mtd) \<and>
         (texture st = None \<or> texture (state (last (m_objects pool))) = None)"
proof -
  have ne: "m_objects pool \<noteq> []"
    using assms by (auto simp: add_empty)
  have nn: "\<not> point_isNull (dest mtd)"
    using assms ne by (auto simp: add_no_dest)
  have "add_scan E (state_eq (state (last (m_objects pool))) st) st
          (state (last (m_objects pool))) mtd (drawMethods (last (m_objects pool))) = Inl e"
    using assms ne nn
    by (auto simp: add_def Let_def updateHash_objects split: sum.splits if_splits)
  from add_scan_fault [OF this] ne nn show ?thesis by simp
qed

lemma dest_has_texture_iff:
  "dest_has_texture pool \<longleftrightarrow>
   (\<forall>obj \<in> set (m_objects pool).
      (\<forall>m \<in> set (drawMethods obj). point_isNull (dest m)) \<or> texture (state obj) \<noteq> None)"
  by (simp add: dest_has_texture_def list_all_iff)

lemma add_keeps_dest_has_texture:
  assumes inv: "dest_has_texture pool"
    and given: "point_isNull (dest mtd) \<or> texture st \<noteq> None"
    and res: "add E st mtd dm pool = Inr pool'"
  shows "dest_has_texture pool'"
proof (cases "m_objects pool = []")
  case True
  with res given show ?thesis
    by (auto simp: add_empty dest_has_texture_iff)
next
  case False
  let ?prev = "last (m_objects pool)"
  let ?scan = "if \<not> point_isNull (dest mtd)
               then add_scan E (state_eq (state ?prev) st) st (state ?prev) mtd (drawMethods ?prev)
               else Inr (drawMethods ?prev)"
  obtain ms where ms: "?scan = Inr ms"
    using res False by (cases ?scan) (auto simp: add_def Let_def updateHash_objects)
  have sub: "set ms \<subseteq> set (drawMethods ?prev)"
    using ms add_scan_subset by (auto split: if_splits)
  have objs: "m_objects pool' =
      butlast (m_objects pool) @
      (if state_eq (state ?prev) st
       then [?prev\<lparr>drawMode := Triangles, drawMethods := ms @ [mtd]\<rparr>]
       else [?prev\<lparr>drawMethods := ms\<rparr>,
             \<lparr>state = st, drawMode = dm, drawMethods = [mtd], action = None\<rparr>])"
    using res False ms by (auto simp: add_def Let_def updateHash_objects split: if_splits)
  have prev_in: "?prev \<in> set (m_objects pool)" using False by simp
  have prev_ok: "(\<forall>m \<in> set (drawMethods ?prev). point_isNull (dest m)) \<or>
                 texture (state ?prev) \<noteq> None"
    using inv prev_in by (simp add: dest_has_texture_iff)
  have init_ok: "\<forall>obj \<in> set (butlast (m_objects pool)).
      (\<forall>m \<in> set (drawMethods obj). point_isNull (dest m)) \<or> texture (state obj) \<noteq> None"
    using inv by (auto simp: dest_has_texture_iff dest: in_set_butlastD)
  have pruned_ok: "(\<forall>m \<in> set ms. point_isNull (dest m)) \<or> texture (state ?prev) \<noteq> None"
    using prev_ok sub by auto
  show ?thesis
  proof (cases "state_eq (state ?prev) st")
    case True
    then have "texture (state ?prev) = texture st" by (simp add: state_eq_def)
    with given pruned_ok
    have "(\<forall>m \<in> set (ms @ [mtd]). point_isNull (dest m)) \<or> texture (state ?prev) \<noteq> None"
      by auto
    with True objs init_ok show ?thesis
      by (auto simp: dest_has_texture_iff)
  next
    case False
    with objs init_ok pruned_ok given show ?thesis
      by (auto simp: dest_has_texture_iff)
  qed
qed

lemma add_no_fault:
  assumes inv: "dest_has_texture pool"
    and given: "point_isNull (dest mtd) \<or> texture st \<noteq> None"
  shows "add E st mtd dm pool \<noteq> Inl e"
proof
  assume "add E st mtd dm pool = Inl e"
  from add_fault [OF this] obtain m where
    f: "m_objects pool \<noteq> []" "\<not> point_isNull (dest mtd)"
       "m \<in> set (drawMethods (last (m_objects pool)))" "dest m = dest mtd"
       "texture st = None \<or> texture (state (last (m_objects pool))) = None"
    by blast
  have "last (m_objects pool) \<in> set (m_objects pool)" using f(1) by simp
  with inv have "(\<forall>m \<in> set (drawMethods (last (m_objects pool))). point_isNull (dest m)) \<or>
                 texture (state (last (m_objects pool))) \<noteq> None"
    unfolding dest_has_texture_iff by blast
  with f(2) f(3) f(4) have "texture (state (last (m_objects pool))) \<noteq> None"
    by auto
  with f(5) given f(2) show False by simp
qed

lemma addRepeated_out_of_range:
  assumes "\<not> search_start pool \<le> length (m_objects pool)"
  shows "addRepeated E st mtd dm pool = Inl SearchStartOutOfRange"
proof -
  have ss: "unat (if m_indexToStartSearching pool \<noteq> 0
                  then m_indexToStartSearching pool - 1 else (0 :: 16 word)) = search_start pool"
    by (simp add: search_start_def)
  show ?thesis
    unfolding addRepeated_def Let_def updateHash_objects updateHash_index ss
    using assms by simp
qed

lemma addRepeated_fault:
  "addRepeated E st mtd dm pool = Inl e \<Longrightarrow> e = SearchStartOutOfRange"
  using addRepeated_eq [of pool E st mtd dm] addRepeated_out_of_range [of pool E st mtd dm]
  by (cases "search_start pool \<le> length (m_objects pool)") simp_all

lemma addRepeated_keeps_dest_has_texture:
  assumes inv: "dest_has_texture pool"
    and nl: "point_isNull (dest mtd)"
    and res: "addRepeated E st mtd dm pool = Inr pool'"
  shows "dest_has_texture pool'"
proof -
  let ?objs = "m_objects pool"
  have "(\<exists>j. j < length ?objs \<and>
          m_objects pool' = ?objs[j := (?objs ! j)\<lparr>drawMethods := drawMethods (?objs ! j) @ [mtd]\<rparr>])
        \<or> m_objects pool' =
            ?objs @ [\<lparr>state = st, drawMode = dm, drawMethods = [mtd], action = None\<rparr>]"
  proof (cases "search_start pool \<le> length ?objs")
    case True
    from addRepeated_eq [OF True, of E st mtd dm] res show ?thesis
      by (auto split: if_splits)
  next
    case False
    from addRepeated_out_of_range [OF False, of E st mtd dm] res show ?thesis
      by simp
  qed
  then show ?thesis
  proof
    assume "\<exists>j. j < length ?objs \<and>
          m_objects pool' = ?objs[j := (?objs ! j)\<lparr>drawMethods := drawMethods (?objs ! j) @ [mtd]\<rparr>]"
    then obtain j where j: "j < length ?objs"
      "m_objects pool' = ?objs[j := (?objs ! j)\<lparr>drawMethods := drawMethods (?objs ! j) @ [mtd]\<rparr>]"
      by blast
    have "?objs ! j \<in> set ?objs" using j(1) by simp
    with inv have "(\<forall>m \<in> set (drawMethods (?objs ! j)). point_isNull (dest m)) \<or>
                   texture (state (?objs ! j)) \<noteq> None"
      by (simp add: dest_has_texture_iff)
    with nl have new_ok: "(\<forall>m \<in> set (drawMethods (?objs ! j) @ [mtd]). point_isNull (dest m)) \<or>
                   texture (state (?objs ! j)) \<noteq> None"
      by auto
    show ?thesis
      unfolding dest_has_texture_iff j(2)
    proof
      fix obj assume "obj \<in> set (?objs[j := (?objs ! j)\<lparr>drawMethods := drawMethods (?objs ! j) @ [mtd]\<rparr>])"
      then have "obj = (?objs ! j)\<lparr>drawMethods := drawMethods (?objs ! j) @ [mtd]\<rparr> \<or> obj \<in> set ?objs"
        using set_update_subset_insert by fastforce
      with new_ok inv
      show "(\<forall>m \<in> set (drawMethods obj). point_isNull (dest m)) \<or> texture (state obj) \<noteq> None"
        by (auto simp: dest_has_texture_iff)
    qed
  next
    assume "m_objects pool' =
            ?objs @ [\<lparr>state = st, drawMode = dm, drawMethods = [mtd], action = None\<rparr>]"
    with inv nl show ?thesis by (auto simp: dest_has_texture_iff)
  qed
qed

lemma point_isNull_default: "point_isNull Point_default"
  by (simp add: point_isNull_def Point_default_def)

lemma add_entry_ok:
  assumes "dest_has_texture pool" and "point_isNull (dest mtd) \<or> texture st \<noteq> None"
  shows "add E st mtd dm pool \<noteq> Inl NullTextureInScan \<and>
         (\<forall>pool'. add E st mtd dm pool = Inr pool' \<longrightarrow> dest_has_texture pool')"
  using add_no_fault [OF assms] add_keeps_dest_has_texture [OF assms] by blast

lemma addRepeated_entry_ok:
  assumes "dest_has_texture pool" and "point_isNull (dest mtd)"
  shows "addRepeated E st mtd dm pool \<noteq> Inl NullTextureInScan \<and>
         (\<forall>pool'. addRepeated E st mtd dm pool = Inr pool' \<longrightarrow> dest_has_texture pool')"
  using addRepeated_fault [of E st mtd dm pool] addRepeated_keeps_dest_has_texture [OF assms]
  by auto

lemma addAction_keeps_dest_has_texture:
  "dest_has_texture pool \<Longrightarrow> dest_has_texture (addAction E act pool)"
  by (simp add: dest_has_texture_def addAction_def)

lemma entry_step:
  assumes inv: "dest_has_texture pool" and given: "texture_given c"
  shows "entry E cur c pool \<noteq> Inl NullTextureInScan \<and>
         (\<forall>pool'. entry E cur c pool = Inr pool' \<longrightarrow> dest_has_texture pool')"
proof (cases c)
  case (Call_addTexturedRect dst tex src col originalDest)
  with given have "point_isNull originalDest \<or> tex \<noteq> None" by simp
  then show ?thesis
    using inv add_entry_ok [OF inv, where E = E and dm = TriangleStrip
        and st = "(generateState cur pool)\<lparr>color := col, texture := tex\<rparr>"
        and mtd = "(DrawMethod_init DRAW_TEXTURED_RECT)\<lparr>rects := (dst, src), dest := originalDest\<rparr>"]
    by (simp add: Call_addTexturedRect addTexturedRect_def)
next
  case (Call_addTexturedRect_whole dst tex col)
  show ?thesis
  proof (cases tex)
    case None
    then show ?thesis by (simp add: Call_addTexturedRect_whole addTexturedRect_whole_def)
  next
    case (Some t)
    then show ?thesis
      using inv add_entry_ok [OF inv, where E = E and dm = TriangleStrip
        and st = "(generateState cur pool)\<lparr>color := col, texture := tex\<rparr>"
        and mtd = "(DrawMethod_init DRAW_TEXTURED_RECT)\<lparr>rects :=
                     (dst, Rect_of Point_default (texture_getSize E t)), dest := Point_default\<rparr>"]
      by (simp add: Call_addTexturedRect_whole addTexturedRect_whole_def addTexturedRect_def
          point_isNull_default)
  qed
next
  case (Call_addUpsideDownTexturedRect dst tex src col)
  then show ?thesis
    using inv add_entry_ok [OF inv, where E = E and dm = TriangleStrip
        and st = "(generateState cur pool)\<lparr>color := col, texture := tex\<rparr>"
        and mtd = "(DrawMethod_init DRAW_UPSIDEDOWN_TEXTURED_RECT)\<lparr>rects := (dst, src)\<rparr>"]
    by (simp add: addUpsideDownTexturedRect_def DrawMethod_init_def point_isNull_default)
next
  case (Call_addRepeatedTexturedRect dst tex src col)
  then show ?thesis
    using inv addRepeated_entry_ok [OF inv, where E = E and dm = "addRepeated_defaultDrawMode E"
        and st = "(generateState cur pool)\<lparr>color := col, texture := tex\<rparr>"
        and mtd = "(DrawMethod_init DRAW_REPEATED_TEXTURED_RECT)\<lparr>rects := (dst, src)\<rparr>"]
    by (simp add: addRepeatedTexturedRect_def DrawMethod_init_def point_isNull_default)
next
  case (Call_addRepeatedTexturedRect_whole dst tex col)
  show ?thesis
  proof (cases tex)
    case None
    then show ?thesis
      by (simp add: Call_addRepeatedTexturedRect_whole addRepeatedTexturedRect_whole_def)
  next
    case (Some t)
    then show ?thesis
      using inv addRepeated_entry_ok [OF inv, where E = E and dm = "addRepeated_defaultDrawMode E"
        and st = "(generateState cur pool)\<lparr>color := col, texture := tex\<rparr>"
        and mtd = "(DrawMethod_init DRAW_REPEATED_TEXTURED_RECT)\<lparr>rects :=
                     (dst, Rect_of Point_default (texture_getSize E t))\<rparr>"]
      by (simp add: Call_addRepeatedTexturedRect_whole addRepeatedTexturedRect_whole_def
          addRepeatedTexturedRect_def DrawMethod_init_def point_isNull_default)
  qed
next
  case (Call_addRepeatedTexturedRepeatedRect dst tex src col)
  then show ?thesis
    using inv addRepeated_entry_ok [OF inv, where E = E and dm = "addRepeated_defaultDrawMode E"
        and st = "(generateState cur pool)\<lparr>color := col, texture := tex\<rparr>"
        and mtd = "(DrawMethod_init DRAW_REPEATED_TEXTURED_REPEATED_RECT)\<lparr>rects := (dst, src)\<rparr>"]
    by (simp add: addRepeatedTexturedRepeatedRect_def DrawMethod_init_def point_isNull_default)
next
  case (Call_addRepeatedFilledRect dst src col)
  then show ?thesis
    using inv addRepeated_entry_ok [OF inv, where E = E and dm = "addRepeated_defaultDrawMode E"
        and st = "(generateState cur pool)\<lparr>color := col\<rparr>"
        and mtd = "(DrawMethod_init DRAW_REPEATED_FILLED_RECT)\<lparr>rects := (dst, src)\<rparr>"]
    by (simp add: addRepeatedFilledRect_def DrawMethod_init_def point_isNull_default)
next
  case (Call_addRepeatedFilledRect_noSrc dst col)
  then show ?thesis
    using inv addRepeated_entry_ok [OF inv, where E = E and dm = "addRepeated_defaultDrawMode E"
        and st = "(generateState cur pool)\<lparr>color := col\<rparr>"
        and mtd = "(DrawMethod_init DRAW_REPEATED_FILLED_RECT)\<lparr>rects := (dst, Rect_default)\<rparr>"]
    by (simp add: addRepeatedFilledRect_noSrc_def addRepeatedFilledRect_def DrawMethod_init_def
        point_isNull_default)
next
  case (Call_addFilledRect dst src col)
  then show ?thesis
    using inv add_entry_ok [OF inv, where E = E and dm = "add_defaultDrawMode E"
        and st = "(generateState cur pool)\<lparr>color := col\<rparr>"
        and mtd = "(DrawMethod_init DRAW_FILLED_RECT)\<lparr>rects := (dst, src)\<rparr>"]
    by (simp add: addFilledRect_def DrawMethod_init_def point_isNull_default)
next
  case (Call_addFilledRect_noSrc dst col)
  then show ?thesis
    using inv add_entry_ok [OF inv, where E = E and dm = "add_defaultDrawMode E"
        and st = "(generateState cur pool)\<lparr>color := col\<rparr>"
        and mtd = "(DrawMethod_init DRAW_FILLED_RECT)\<lparr>rects := (dst, Rect_default)\<rparr>"]
    by (simp add: addFilledRect_noSrc_def addFilledRect_def DrawMethod_init_def
        point_isNull_default)
next
  case (Call_addFilledTriangle a b c' col)
  then show ?thesis
    using inv add_entry_ok [OF inv, where E = E and dm = "add_defaultDrawMode E"
        and st = "(generateState cur pool)\<lparr>color := col\<rparr>"
        and mtd = "(DrawMethod_init DRAW_FILLED_TRIANGLE)\<lparr>points := (a, b, c')\<rparr>"]
    by (simp add: addFilledTriangle_def DrawMethod_init_def point_isNull_default)
next
  case (Call_addBoundingRect dst col innerLineWidth)
  then show ?thesis
    using inv add_entry_ok [OF inv, where E = E and dm = "add_defaultDrawMode E"
        and st = "(generateState cur pool)\<lparr>color := col\<rparr>"
        and mtd = "(DrawMethod_init DRAW_BOUNDING_RECT)\<lparr>rects := (dst, Rect_default),
                                                   intValue := innerLineWidth\<rparr>"]
    by (simp add: addBoundingRect_def DrawMethod_init_def point_isNull_default)
next
  case (Call_addAction act)
  then show ?thesis
    using inv by (simp add: addAction_keeps_dest_has_texture)
qed

lemma entries_safe:
  "dest_has_texture pool \<Longrightarrow> \<forall>c \<in> set cs. texture_given (snd c) \<Longrightarrow>
   entries E cs pool \<noteq> Inl NullTextureInScan \<and>
   (\<forall>pool'. entries E cs pool = Inr pool' \<longrightarrow> dest_has_texture pool')"
proof (induction cs arbitrary: pool)
  case Nil
  then show ?case by simp
next
  case (Cons a cs)
  obtain cur c where a: "a = (cur, c)" by (cases a) auto
  from Cons.prems a have g: "texture_given c" by simp
  note st = entry_step [OF Cons.prems(1) g, of E cur]
  show ?case
  proof (cases "entry E cur c pool")
    case (Inl e)
    with st a show ?thesis by auto
  next
    case (Inr p)
    with st have "dest_has_texture p" by simp
    from Cons.IH [OF this] Cons.prems(2) Inr a show ?thesis by simp
  qed
qed

text \<open>
  C9 (as amended): the texture dereferences inside the removal scan of \<^verbatim>\<open>add\<close> are
  reached only when the pool is non-empty and the new method and a method of the
  trailing object carry an equal non-null destination point. Among the public entry
  points only \<^verbatim>\<open>addTexturedRect(dest, texture, src, color, originalDest)\<close> produces a
  method with a non-null destination, and it binds the texture it is given, unchecked.
  So when every such call with a non-null original destination is given a non-null
  texture, no sequence of calls of the public entry points on a pool that starts empty
  evaluates the scan on a null texture, and every object that holds a method with a
  non-null destination has a texture.
\<close>

theorem scan_dereferences_no_null_texture:
  "(add E st mtd dm pool0 = Inl e \<longrightarrow>
      e = NullTextureInScan \<and> m_objects pool0 \<noteq> [] \<and> \<not> point_isNull (dest mtd) \<and>
      (\<exists>m \<in> set (drawMethods (last (m_objects pool0))). dest m = dest mtd) \<and>
      (texture st = None \<or> texture (state (last (m_objects pool0))) = None)) \<and>
   (m_objects pool = [] \<longrightarrow> dest_has_texture pool) \<and>
   (dest_has_texture pool \<and> (\<forall>c \<in> set cs. texture_given (snd c)) \<longrightarrow>
      entries E cs pool \<noteq> Inl NullTextureInScan \<and>
      (\<forall>pool'. entries E cs pool = Inr pool' \<longrightarrow> dest_has_texture pool'))"
proof -
  have a: "add E st mtd dm pool0 = Inl e \<longrightarrow>
      e = NullTextureInScan \<and> m_objects pool0 \<noteq> [] \<and> \<not> point_isNull (dest mtd) \<and>
      (\<exists>m \<in> set (drawMethods (last (m_objects pool0))). dest m = dest mtd) \<and>
      (texture st = None \<or> texture (state (last (m_objects pool0))) = None)"
    using add_fault [of E st mtd dm pool0 e] by blast
  have b: "m_objects pool = [] \<longrightarrow> dest_has_texture pool"
    by (simp add: dest_has_texture_def)
  have c: "dest_has_texture pool \<and> (\<forall>c \<in> set cs. texture_given (snd c)) \<longrightarrow>
      entries E cs pool \<noteq> Inl NullTextureInScan \<and>
      (\<forall>pool'. entries E cs pool = Inr pool' \<longrightarrow> dest_has_texture pool')"
    using entries_safe [of pool cs E] by blast
  show ?thesis using a b c by blast
qed

theorem scan_dereferences_no_null_texture_witness:
  "add ex_E ex_painter ex_method TriangleStrip ex_pool_one = Inl NullTextureInScan \<and>
   m_objects ex_pool_one \<noteq> [] \<and> \<not> point_isNull (dest ex_method) \<and>
   (texture ex_painter = None \<or> texture (state (last (m_objects ex_pool_one))) = None) \<and>
   m_objects ex_pool = [] \<and> dest_has_texture ex_pool \<and>
   texture_given (Call_addTexturedRect ex_rect (Some 2) ex_rect Color_white ex_point) \<and>
   texture_given (Call_addTexturedRect ex_rect (Some 3) ex_rect Color_white ex_point) \<and>
   entries ex_E
     [(ex_painter, Call_addTexturedRect ex_rect (Some 2) ex_rect Color_white ex_point),
      (ex_painter, Call_addTexturedRect ex_rect (Some 3) ex_rect Color_white ex_point)]
     ex_pool =
     Inr (ex_pool\<lparr>m_objects :=
            [ex_object,
             \<lparr>state = ex_state_super, drawMode = TriangleStrip, drawMethods = [ex_method],
              action = None\<rparr>]\<rparr>) \<and>
   dest_has_texture (ex_pool\<lparr>m_objects :=
            [ex_object,
             \<lparr>state = ex_state_super, drawMode = TriangleStrip, drawMethods = [ex_method],
              action = None\<rparr>]\<rparr>)"
proof -
  let ?cs = "[(ex_painter, Call_addTexturedRect ex_rect (Some 2) ex_rect Color_white ex_point),
      (ex_painter, Call_addTexturedRect ex_rect (Some 3) ex_rect Color_white ex_point)]"
  let ?res = "ex_pool\<lparr>m_objects :=
            [ex_object,
             \<lparr>state = ex_state_super, drawMode = TriangleStrip, drawMethods = [ex_method],
              action = None\<rparr>]\<rparr>"
  note T = scan_dereferences_no_null_texture
      [where E = ex_E and st = ex_painter and mtd = ex_method and dm = TriangleStrip
         and ?pool0.0 = ex_pool_one and e = NullTextureInScan and pool = ex_pool and cs = ?cs]
  have nn: "\<not> point_isNull (dest ex_method)"
    by (simp add: ex_method_def ex_point_def point_isNull_def)
  have ne: "\<not> rect_isEmpty ex_rect"
    by (simp add: rect_isEmpty_def ex_rect_def)
  have f: "add ex_E ex_painter ex_method TriangleStrip ex_pool_one = Inl NullTextureInScan"
    using nn
    by (simp add: add_def updateHash_def Let_def ex_pool_one_def ex_pool_def ex_object_def
        ex_painter_def ex_state_def state_eq_def)
  have e: "m_objects ex_pool = []"
    by (simp add: ex_pool_def)
  have i: "dest_has_texture ex_pool"
    using T e by blast
  have g: "\<forall>c \<in> set ?cs. texture_given (snd c)"
    by simp
  have s1: "(generateState ex_painter ex_pool)\<lparr>color := Color_white, texture := Some 2\<rparr> = ex_state"
    by (simp add: generateState_def ex_painter_def ex_pool_def ex_poolState_def ex_state_def)
  have s2: "(generateState ex_painter ex_pool_one)\<lparr>color := Color_white, texture := Some 3\<rparr> =
            ex_state_super"
    by (simp add: generateState_def ex_painter_def ex_pool_one_def ex_pool_def ex_poolState_def
        ex_state_super_def)
  have m: "(DrawMethod_init DRAW_TEXTURED_RECT)\<lparr>rects := (ex_rect, ex_rect), dest := ex_point\<rparr> =
           ex_method"
    by (simp add: ex_method_def)
  have c1: "addTexturedRect ex_E ex_painter ex_rect (Some 2) ex_rect Color_white ex_point ex_pool =
            Inr ex_pool_one"
    unfolding addTexturedRect_def s1 m using ne
    by (simp add: add_empty e updateHash_def ex_pool_one_def ex_pool_def ex_object_def)
  have c2: "addTexturedRect ex_E ex_painter ex_rect (Some 3) ex_rect Color_white ex_point
              ex_pool_one = Inr ?res"
    unfolding addTexturedRect_def s2 m using ne nn
    by (simp add: add_def updateHash_def Let_def ex_pool_one_def ex_pool_def ex_object_def
        ex_state_def ex_state_super_def ex_painter_def state_eq_def ex_E_def)
  have r: "entries ex_E ?cs ex_pool = Inr ?res"
    by (simp add: c1 c2)
  have d: "dest_has_texture ?res"
    using T i g r by blast
  have reached: "m_objects ex_pool_one \<noteq> [] \<and> \<not> point_isNull (dest ex_method) \<and>
      (texture ex_painter = None \<or> texture (state (last (m_objects ex_pool_one))) = None)"
    using T [THEN conjunct1] f by simp
  show ?thesis
    using f reached e i r d by simp
qed

text \<open>
  C9 as stated fails: \<^verbatim>\<open>addTexturedRect\<close> binds the texture argument as it comes. Two
  calls of this entry point at the same original destination, the second with a null
  texture, reach the dereference of the new state's texture in the scan.
\<close>

theorem null_texture_reaches_scan_counterexample:
  "entries ex_E
     [(ex_painter, Call_addTexturedRect ex_rect (Some 2) ex_rect Color_white ex_point),
      (ex_painter, Call_addTexturedRect ex_rect None ex_rect Color_white ex_point)]
     ex_pool = Inl NullTextureInScan"
proof -
  have nn: "\<not> point_isNull (dest ex_method)"
    by (simp add: ex_method_def ex_point_def point_isNull_def)
  have ne: "\<not> rect_isEmpty ex_rect"
    by (simp add: rect_isEmpty_def ex_rect_def)
  have e: "m_objects ex_pool = []"
    by (simp add: ex_pool_def)
  have s1: "(generateState ex_painter ex_pool)\<lparr>color := Color_white, texture := Some 2\<rparr> = ex_state"
    by (simp add: generateState_def ex_painter_def ex_pool_def ex_poolState_def ex_state_def)
  have s2: "(generateState ex_painter ex_pool_one)\<lparr>color := Color_white, texture := None\<rparr> =
            ex_painter"
    by (simp add: generateState_def ex_painter_def ex_pool_one_def ex_pool_def ex_poolState_def)
  have m: "(DrawMethod_init DRAW_TEXTURED_RECT)\<lparr>rects := (ex_rect, ex_rect), dest := ex_point\<rparr> =
           ex_method"
    by (simp add: ex_method_def)
  have c1: "addTexturedRect ex_E ex_painter ex_rect (Some 2) ex_rect Color_white ex_point ex_pool =
            Inr ex_pool_one"
    unfolding addTexturedRect_def s1 m using ne
    by (simp add: add_empty e updateHash_def ex_pool_one_def ex_pool_def ex_object_def)
  have c2: "addTexturedRect ex_E ex_painter ex_rect None ex_rect Color_white ex_point
              ex_pool_one = Inl NullTextureInScan"
    unfolding addTexturedRect_def s2 m using ne nn
    by (simp add: add_def updateHash_def Let_def ex_pool_one_def ex_pool_def ex_object_def
        ex_painter_def ex_state_def state_eq_def)
  show ?thesis
    by (simp add: c1 c2)
qed

section \<open>Frames, the cached framebuffer and auto-update\<close>

lemma add_framebuffer:
  "add E st mtd dm pool = Inr pool' \<Longrightarrow>
   m_framebuffer pool' = m_framebuffer (updateHash E st mtd pool) \<and>
   m_enabled pool' = m_enabled pool"
  by (auto simp: add_def Let_def updateHash_enabled split: if_splits sum.splits)

lemma addRepeated_framebuffer:
  "addRepeated E st mtd dm pool = Inr pool' \<Longrightarrow>
   m_framebuffer pool' = m_framebuffer (updateHash E st mtd pool) \<and>
   m_enabled pool' = m_enabled pool"
  using addRepeated_eq [of pool E st mtd dm] addRepeated_out_of_range [of pool E st mtd dm]
  by (cases "search_start pool \<le> length (m_objects pool)") (auto simp: updateHash_enabled)

lemma pool_call_framebuffer:
  assumes "pool_call E c pool = Inr pool'"
  shows "m_enabled pool' = m_enabled pool \<and>
         (m_framebuffer pool = None \<longrightarrow> m_framebuffer pool' = None) \<and>
         (\<forall>pf. m_framebuffer pool = Some pf \<longrightarrow>
            (\<exists>pf'. m_framebuffer pool' = Some pf' \<and>
               fst (m_status pf') = fst (m_status pf) \<and>
               snd (m_status pf') = calls_hash E [c] (snd (m_status pf)) \<and>
               m_dest pf' = m_dest pf \<and> m_src pf' = m_src pf \<and>
               m_beforeDraw pf' = m_beforeDraw pf \<and> m_afterDraw pf' = m_afterDraw pf \<and>
               (m_autoUpdate pf \<longrightarrow> m_autoUpdate pf')))"
proof (cases c)
  case (Call_add st mtd dm)
  with assms add_framebuffer [of E st mtd dm pool pool'] show ?thesis
    by (auto simp: updateHash_eq split: option.splits)
next
  case (Call_addRepeated st mtd dm)
  with assms addRepeated_framebuffer [of E st mtd dm pool pool'] show ?thesis
    by (auto simp: updateHash_eq split: option.splits)
qed

lemma onCurrentPool_Inr:
  "onCurrentPool f s = Inr s' \<Longrightarrow>
   \<exists>p'. f (m_pools s ! m_currentPool s) = Inr p' \<and>
        s' = s\<lparr>m_pools := (m_pools s)[m_currentPool s := p']\<rparr>"
  by (auto simp: onCurrentPool_def split: sum.splits)

lemma calls_hash_Cons: "calls_hash E (c # cs) h = calls_hash E cs (calls_hash E [c] h)"
  by (cases c) simp_all

lemma run_calls_current:
  assumes "m_currentPool s = i" and "i < length (m_pools s)"
    and "m_framebuffer (m_pools s ! i) = Some pf"
    and "run E (map Op_call cs) s = Inr s'"
  shows "m_currentPool s' = i \<and> length (m_pools s') = length (m_pools s) \<and>
         m_enabled (m_pools s' ! i) = m_enabled (m_pools s ! i) \<and>
         (\<exists>pf'. m_framebuffer (m_pools s' ! i) = Some pf' \<and>
            fst (m_status pf') = fst (m_status pf) \<and>
            snd (m_status pf') = calls_hash E cs (snd (m_status pf)) \<and>
            m_dest pf' = m_dest pf \<and> m_src pf' = m_src pf)"
  using assms
proof (induction cs arbitrary: s pf)
  case Nil
  then show ?case by simp
next
  case (Cons c cs)
  from Cons.prems(4) obtain s1 where
    s1: "onCurrentPool (pool_call E c) s = Inr s1" "run E (map Op_call cs) s1 = Inr s'"
    by (auto split: sum.splits)
  from onCurrentPool_Inr [OF s1(1)] Cons.prems(1) obtain p' where
    p': "pool_call E c (m_pools s ! i) = Inr p'" "s1 = s\<lparr>m_pools := (m_pools s)[i := p']\<rparr>"
    by auto
  from pool_call_framebuffer [OF p'(1)] Cons.prems(3) obtain pf1 where
    pf1: "m_enabled p' = m_enabled (m_pools s ! i)" "m_framebuffer p' = Some pf1"
         "fst (m_status pf1) = fst (m_status pf)"
         "snd (m_status pf1) = calls_hash E [c] (snd (m_status pf))"
         "m_dest pf1 = m_dest pf" "m_src pf1 = m_src pf"
    by auto
  have a1: "m_currentPool s1 = i" using p'(2) Cons.prems(1) by simp
  have a2: "i < length (m_pools s1)" using p'(2) Cons.prems(2) by simp
  have a3: "m_framebuffer (m_pools s1 ! i) = Some pf1"
    using p'(2) Cons.prems(2) pf1(2) by simp
  have a4: "m_enabled (m_pools s1 ! i) = m_enabled (m_pools s ! i)"
    using p'(2) Cons.prems(2) pf1(1) by simp
  have a5: "length (m_pools s1) = length (m_pools s)" using p'(2) by simp
  from Cons.IH [OF a1 a2 a3 s1(2)] a4 a5 pf1 calls_hash_Cons [of E c cs "snd (m_status pf)"]
  show ?case by auto
qed

lemma use_current:
  assumes "i < length (m_pools s)" and "m_framebuffer (m_pools s ! i) = Some pf"
  shows "m_currentPool (use E (Some i) s) = i \<and>
         length (m_pools (use E (Some i) s)) = length (m_pools s) \<and>
         m_enabled (m_pools (use E (Some i) s) ! i) = m_enabled (m_pools s ! i) \<and>
         m_framebuffer (m_pools (use E (Some i) s) ! i) =
           Some (pf\<lparr>m_status := (fst (m_status pf), 0)\<rparr>)"
  using assms
  by (simp add: use_def Let_def resetState_def hasFrameBuffer_def resetCurrentStatus_def)

lemma draw_framed_pool:
  assumes "i < length (m_pools s)" and "m_enabled (m_pools s ! i)"
    and "m_framebuffer (m_pools s ! i) = Some pf"
  shows "length (m_pools (fst (draw s))) = length (m_pools s) \<and>
         m_enabled (m_pools (fst (draw s)) ! i) \<and>
         m_framebuffer (m_pools (fst (draw s)) ! i) =
           Some (pf\<lparr>m_status := (snd (m_status pf), snd (m_status pf))\<rparr>)"
proof -
  have "m_pools (fst (draw s)) ! i = fst (draw_pool i (fst (preDraw_pool i (m_pools s ! i))))"
    using draw_pools_nth [OF assms(1)] .
  moreover have "\<not> hasModification pf \<Longrightarrow> pf\<lparr>m_status := (snd (m_status pf), snd (m_status pf))\<rparr> = pf"
  proof -
    assume "\<not> hasModification pf"
    then have "(snd (m_status pf), snd (m_status pf)) = m_status pf"
      by (simp add: hasModification_def prod_eq_iff)
    then show ?thesis by simp
  qed
  ultimately show ?thesis
    using assms
    by (simp add: draw_pools_length draw_pool_def preDraw_pool_def isEnabled_def
        hasFrameBuffer_def updateStatus_def)
qed

lemma manager_step_autoUpdate:
  assumes "autoUpdate_on i s" and "manager_step E operation s = Inr s'"
  shows "autoUpdate_on i s'"
proof -
  from assms(1) obtain pf where
    i: "i < length (m_pools s)" and pf: "m_framebuffer (m_pools s ! i) = Some pf" "m_autoUpdate pf"
    by (auto simp: autoUpdate_on_def split: option.splits)
  show ?thesis
  proof (cases operation)
    case (Op_use poolPtr)
    with assms(2) have s': "s' = use E poolPtr s" by simp
    show ?thesis
    proof (cases "(case poolPtr of Some j \<Rightarrow> j | None \<Rightarrow> n_unknowPool s) = i")
      case True
      with i pf show ?thesis
        unfolding s' autoUpdate_on_def
        by (simp add: use_def Let_def resetState_def hasFrameBuffer_def resetCurrentStatus_def)
    next
      case False
      with i pf show ?thesis
        unfolding s' autoUpdate_on_def
        by (simp add: use_def Let_def)
    qed
  next
    case (Op_call c)
    with assms(2) have "onCurrentPool (pool_call E c) s = Inr s'" by simp
    from onCurrentPool_Inr [OF this] obtain p' where
      p': "pool_call E c (m_pools s ! m_currentPool s) = Inr p'"
          "s' = s\<lparr>m_pools := (m_pools s)[m_currentPool s := p']\<rparr>"
      by blast
    show ?thesis
    proof (cases "m_currentPool s = i")
      case True
      with pool_call_framebuffer [OF p'(1)] pf obtain pf' where
        "m_framebuffer p' = Some pf'" "m_autoUpdate pf'"
        by auto
      with True i p'(2) show ?thesis
        by (simp add: autoUpdate_on_def)
    next
      case False
      with i pf p'(2) show ?thesis
        by (simp add: autoUpdate_on_def)
    qed
  next
    case (Op_action act)
    with assms(2) have "onCurrentPool (\<lambda>pool. Inr (addAction E act pool)) s = Inr s'" by simp
    from onCurrentPool_Inr [OF this]
    have s': "s' = s\<lparr>m_pools := (m_pools s)[m_currentPool s :=
                       addAction E act (m_pools s ! m_currentPool s)]\<rparr>"
      by auto
    show ?thesis
    proof (cases "m_currentPool s = i")
      case True
      with i pf show ?thesis
        unfolding s' autoUpdate_on_def by (simp add: addAction_def)
    next
      case False
      with i pf show ?thesis
        unfolding s' autoUpdate_on_def by simp
    qed
  next
    case Op_draw
    with assms(2) have s': "s' = fst (draw s)" by simp
    have "m_pools (fst (draw s)) ! i = fst (draw_pool i (fst (preDraw_pool i (m_pools s ! i))))"
      using draw_pools_nth [OF i] .
    with i pf show ?thesis
      unfolding s' autoUpdate_on_def
      by (simp add: draw_pools_length draw_pool_def preDraw_pool_def updateStatus_def)
  qed
qed

lemma run_autoUpdate:
  "autoUpdate_on i s \<Longrightarrow> run E ops s = Inr s' \<Longrightarrow> autoUpdate_on i s'"
proof (induction ops arbitrary: s)
  case Nil
  then show ?case by simp
next
  case (Cons operation ops)
  from Cons.prems(2) obtain s1 where
    s1: "manager_step E operation s = Inr s1" "run E ops s1 = Inr s'"
    by (auto split: sum.splits)
  from manager_step_autoUpdate [OF Cons.prems(1) s1(1)] Cons.IH s1(2) show ?case by blast
qed

lemma content_hash_shader:
  "hash_contributions E (st\<lparr>shaderProgram := sh\<rparr>) mtd = hash_contributions E st mtd \<and>
   content_hash E (st\<lparr>shaderProgram := sh\<rparr>) mtd = content_hash E st mtd"
  by (simp add: content_hash_def hash_contributions_def)

lemma preDraw_pool_event:
  assumes "e \<in> set (snd (preDraw_pool k p))"
  shows "(e = FramebufferBind k \<or> e = FramebufferRelease k \<or>
          (\<exists>obj \<in> set (m_objects p). e = DrawObjectCall k obj)) \<and>
         isEnabled p \<and> m_objects p \<noteq> [] \<and>
         (\<exists>pf. m_framebuffer p = Some pf \<and> hasModification pf)"
  using assms
  by (auto simp: preDraw_pool_def split: if_splits option.splits)

lemma preDraw_event:
  assumes "e \<in> set (snd (preDraw s))"
  shows "\<exists>k < length (m_pools s). e \<in> set (snd (preDraw_pool k (m_pools s ! k)))"
  using assms preDraw_loop_events [of 0 "m_pools s"]
  by (auto simp: preDraw_def split_def Let_def)

lemma preDraw_tagged:
  assumes "e \<in> set (snd (preDraw s))"
    and "e = FramebufferBind i \<or> e = FramebufferRelease i \<or> (\<exists>obj. e = DrawObjectCall i obj)"
  shows "i < length (m_pools s) \<and> isEnabled (m_pools s ! i) \<and> m_objects (m_pools s ! i) \<noteq> [] \<and>
         (\<exists>pf. m_framebuffer (m_pools s ! i) = Some pf \<and> hasModification pf)"
proof -
  from preDraw_event [OF assms(1)] obtain k where
    k: "k < length (m_pools s)" "e \<in> set (snd (preDraw_pool k (m_pools s ! k)))"
    by blast
  note ev = preDraw_pool_event [OF k(2)]
  from ev assms(2) have "k = i" by auto
  with k(1) ev show ?thesis by simp
qed

lemma draw_event_framed:
  assumes "i < length (m_pools s)" and "m_enabled (m_pools s ! i)"
    and "m_framebuffer (m_pools s ! i) = Some pf"
  shows "FramebufferDraw i (m_dest pf) (m_src pf) \<in> set (snd (draw s))"
proof -
  let ?p1 = "fst (preDraw_pool i (m_pools s ! i))"
  let ?ps1 = "fst (preDraw_loop 0 (m_pools s))"
  have n: "?ps1 ! i = ?p1"
    using preDraw_loop_nth [OF assms(1), of 0] by simp
  have l: "i < length ?ps1"
    using assms(1) by (simp add: preDraw_loop_length)
  have "FramebufferDraw i (m_dest pf) (m_src pf) \<in> set (snd (draw_pool i ?p1))"
    using assms(2) assms(3)
    by (simp add: draw_pool_def preDraw_pool_def isEnabled_def hasFrameBuffer_def updateStatus_def)
  with n l have "FramebufferDraw i (m_dest pf) (m_src pf) \<in> set (snd (draw_loop 0 ?ps1))"
    unfolding draw_loop_events by force
  then show ?thesis
    by (simp add: draw_def preDraw_def drawPhase_def split_def Let_def)
qed

lemma call_sets_autoUpdate:
  assumes "m_currentPool s < length (m_pools s)"
    and "m_framebuffer (m_pools s ! m_currentPool s) \<noteq> None"
    and "shaderProgram st \<noteq> None"
    and "c = Call_add st mtd dm \<or> c = Call_addRepeated st mtd dm"
    and "manager_step E (Op_call c) s = Inr s1"
  shows "autoUpdate_on (m_currentPool s) s1"
proof -
  from assms(5) have "onCurrentPool (pool_call E c) s = Inr s1" by simp
  from onCurrentPool_Inr [OF this] obtain p' where
    p': "pool_call E c (m_pools s ! m_currentPool s) = Inr p'"
        "s1 = s\<lparr>m_pools := (m_pools s)[m_currentPool s := p']\<rparr>"
    by blast
  have "m_framebuffer p' = m_framebuffer (updateHash E st mtd (m_pools s ! m_currentPool s))"
    using assms(4) p'(1) add_framebuffer addRepeated_framebuffer by auto
  with assms(2) assms(3) have "\<exists>pf'. m_framebuffer p' = Some pf' \<and> m_autoUpdate pf'"
    by (auto simp: updateHash_eq)
  with assms(1) p'(2) show ?thesis
    by (auto simp: autoUpdate_on_def)
qed

text \<open>
  C7: an \<^verbatim>\<open>add\<close> or \<^verbatim>\<open>addRepeated\<close> into a framed pool with a state that has a
  shader program bound sets the auto-update flag of the pool, and the shader program
  contributes nothing to the content hash: the hash is that of the same state with any
  other shader, or none. Once the flag is set, whatever the manager is asked to do
  afterwards (selections, additions, actions, draws, over any number of frames), the
  flag stays set and \<^verbatim>\<open>hasModification()\<close> is true, whatever the two hashes are.
\<close>

theorem shader_forces_autoUpdate:
  "(m_framebuffer pool = Some pf \<and> shaderProgram st \<noteq> None \<and>
    (add E st mtd dm pool = Inr pool' \<or> addRepeated E st mtd dm pool = Inr pool') \<longrightarrow>
      (\<exists>pf'. m_framebuffer pool' = Some pf' \<and> m_autoUpdate pf' \<and> hasModification pf' \<and>
         snd (m_status pf') =
           hash_combine E (snd (m_status pf)) (content_hash E st mtd))) \<and>
   hash_contributions E (st\<lparr>shaderProgram := sh\<rparr>) mtd = hash_contributions E st mtd \<and>
   content_hash E (st\<lparr>shaderProgram := sh\<rparr>) mtd = content_hash E st mtd \<and>
   (m_currentPool s < length (m_pools s) \<and>
    m_framebuffer (m_pools s ! m_currentPool s) \<noteq> None \<and> shaderProgram st \<noteq> None \<and>
    (c = Call_add st mtd dm \<or> c = Call_addRepeated st mtd dm) \<and>
    run E (Op_call c # ops) s = Inr s' \<longrightarrow>
      m_currentPool s < length (m_pools s') \<and>
      (\<exists>pf'. m_framebuffer (m_pools s' ! m_currentPool s) = Some pf' \<and>
             m_autoUpdate pf' \<and> hasModification pf'))"
proof -
  have a: "m_framebuffer pool = Some pf \<and> shaderProgram st \<noteq> None \<and>
    (add E st mtd dm pool = Inr pool' \<or> addRepeated E st mtd dm pool = Inr pool') \<longrightarrow>
      (\<exists>pf'. m_framebuffer pool' = Some pf' \<and> m_autoUpdate pf' \<and> hasModification pf' \<and>
         snd (m_status pf') =
           hash_combine E (snd (m_status pf)) (content_hash E st mtd))"
  proof
    assume h: "m_framebuffer pool = Some pf \<and> shaderProgram st \<noteq> None \<and>
      (add E st mtd dm pool = Inr pool' \<or> addRepeated E st mtd dm pool = Inr pool')"
    then have "m_framebuffer pool' = m_framebuffer (updateHash E st mtd pool)"
      using add_framebuffer addRepeated_framebuffer by blast
    with h show "\<exists>pf'. m_framebuffer pool' = Some pf' \<and> m_autoUpdate pf' \<and> hasModification pf' \<and>
         snd (m_status pf') =
           hash_combine E (snd (m_status pf)) (content_hash E st mtd)"
      by (auto simp: updateHash_eq hasModification_def)
  qed
  have d: "m_currentPool s < length (m_pools s) \<and>
    m_framebuffer (m_pools s ! m_currentPool s) \<noteq> None \<and> shaderProgram st \<noteq> None \<and>
    (c = Call_add st mtd dm \<or> c = Call_addRepeated st mtd dm) \<and>
    run E (Op_call c # ops) s = Inr s' \<longrightarrow>
      m_currentPool s < length (m_pools s') \<and>
      (\<exists>pf'. m_framebuffer (m_pools s' ! m_currentPool s) = Some pf' \<and>
             m_autoUpdate pf' \<and> hasModification pf')"
  proof
    assume h: "m_currentPool s < length (m_pools s) \<and>
      m_framebuffer (m_pools s ! m_currentPool s) \<noteq> None \<and> shaderProgram st \<noteq> None \<and>
      (c = Call_add st mtd dm \<or> c = Call_addRepeated st mtd dm) \<and>
      run E (Op_call c # ops) s = Inr s'"
    then obtain s1 where
      s1: "manager_step E (Op_call c) s = Inr s1" "run E ops s1 = Inr s'"
      by (auto split: sum.splits)
    from h s1(1) have "autoUpdate_on (m_currentPool s) s1"
      using call_sets_autoUpdate [of s st c mtd dm E s1] by blast
    from run_autoUpdate [OF this s1(2)]
    show "m_currentPool s < length (m_pools s') \<and>
      (\<exists>pf'. m_framebuffer (m_pools s' ! m_currentPool s) = Some pf' \<and>
             m_autoUpdate pf' \<and> hasModification pf')"
      by (auto simp: autoUpdate_on_def hasModification_def split: option.splits)
  qed
  show ?thesis
    using a d content_hash_shader [where E = E and st = st and sh = sh and mtd = mtd] by blast
qed

theorem shader_forces_autoUpdate_witness:
  "m_currentPool ex_drawPool_framed < length (m_pools ex_drawPool_framed) \<and>
   m_framebuffer ex_framedPool = Some ex_framed \<and>
   shaderProgram ex_state_shader = Some 9 \<and>
   add ex_E ex_state_shader ex_method TriangleStrip ex_framedPool =
     Inr ((updateHash ex_E ex_state_shader ex_method ex_framedPool)\<lparr>m_objects :=
            [\<lparr>state = ex_state_shader, drawMode = TriangleStrip, drawMethods = [ex_method],
              action = None\<rparr>]\<rparr>) \<and>
   (\<exists>pf'. m_framebuffer ((updateHash ex_E ex_state_shader ex_method ex_framedPool)\<lparr>m_objects :=
            [\<lparr>state = ex_state_shader, drawMode = TriangleStrip, drawMethods = [ex_method],
              action = None\<rparr>]\<rparr>) = Some pf' \<and> m_autoUpdate pf' \<and> hasModification pf') \<and>
   run ex_E [Op_call (Call_add ex_state_shader ex_method TriangleStrip), Op_draw,
             Op_use (Some 0), Op_draw] ex_drawPool_framed =
     Inr (ex_drawPool_framed\<lparr>m_pools :=
            [ex_framedPool\<lparr>m_framebuffer := Some (ex_framed\<lparr>m_autoUpdate := True\<rparr>)\<rparr>]\<rparr>) \<and>
   fst (m_status (ex_framed\<lparr>m_autoUpdate := True\<rparr>)) =
     snd (m_status (ex_framed\<lparr>m_autoUpdate := True\<rparr>)) \<and>
   hasModification (ex_framed\<lparr>m_autoUpdate := True\<rparr>)"
proof -
  let ?c = "Call_add ex_state_shader ex_method TriangleStrip"
  let ?ops = "[Op_draw, Op_use (Some 0), Op_draw]"
  let ?obj = "\<lparr>state = ex_state_shader, drawMode = TriangleStrip, drawMethods = [ex_method],
              action = None\<rparr>"
  let ?H = "hash_combine ex_E 0 (content_hash ex_E ex_state_shader ex_method)"
  let ?pA = "(updateHash ex_E ex_state_shader ex_method ex_framedPool)\<lparr>m_objects := [?obj]\<rparr>"
  let ?final = "ex_drawPool_framed\<lparr>m_pools :=
            [ex_framedPool\<lparr>m_framebuffer := Some (ex_framed\<lparr>m_autoUpdate := True\<rparr>)\<rparr>]\<rparr>"
  have cur: "m_currentPool ex_drawPool_framed < length (m_pools ex_drawPool_framed)"
    by (simp add: ex_drawPool_framed_def)
  have fb: "m_framebuffer ex_framedPool = Some ex_framed"
    by (simp add: ex_framedPool_def)
  have fb0: "m_framebuffer (m_pools ex_drawPool_framed ! m_currentPool ex_drawPool_framed) \<noteq> None"
    by (simp add: ex_drawPool_framed_def ex_framedPool_def)
  have sh: "shaderProgram ex_state_shader = Some 9"
    by (simp add: ex_state_shader_def)
  have base: "baselinePoolState ex_E = ex_poolState"
    by (simp add: ex_E_def)
  have e: "m_objects ex_framedPool = []"
    by (simp add: ex_framedPool_def ex_pool_def)
  have a: "add ex_E ex_state_shader ex_method TriangleStrip ex_framedPool = Inr ?pA"
    using e by (simp add: add_empty)
  have pA: "?pA = ex_framedPool\<lparr>m_objects := [?obj],
              m_framebuffer := Some (ex_framed\<lparr>m_autoUpdate := True, m_status := (0, ?H)\<rparr>)\<rparr>"
    by (simp add: updateHash_eq fb sh ex_framed_def ex_framedPool_def)
  have stepA: "manager_step ex_E (Op_call ?c) ex_drawPool_framed =
                 Inr (ex_drawPool_framed\<lparr>m_pools := [?pA]\<rparr>)"
    using a by (simp add: onCurrentPool_def ex_drawPool_framed_def)
  have stepB: "fst (draw (ex_drawPool_framed\<lparr>m_pools := [?pA]\<rparr>)) =
      ex_drawPool_framed\<lparr>m_pools :=
        [ex_framedPool\<lparr>m_framebuffer :=
           Some (ex_framed\<lparr>m_autoUpdate := True, m_status := (?H, ?H)\<rparr>)\<rparr>]\<rparr>"
    unfolding pA
    by (simp add: draw_def preDraw_def drawPhase_def preDraw_pool_def draw_pool_def
        isEnabled_def hasFrameBuffer_def hasModification_def updateStatus_def split_def Let_def
        ex_framedPool_def ex_pool_def ex_framed_def)
  have stepC: "use ex_E (Some 0) (ex_drawPool_framed\<lparr>m_pools :=
        [ex_framedPool\<lparr>m_framebuffer :=
           Some (ex_framed\<lparr>m_autoUpdate := True, m_status := (?H, ?H)\<rparr>)\<rparr>]\<rparr>) =
      ex_drawPool_framed\<lparr>m_pools :=
        [ex_framedPool\<lparr>m_framebuffer :=
           Some (ex_framed\<lparr>m_autoUpdate := True, m_status := (?H, 0)\<rparr>)\<rparr>]\<rparr>"
    by (simp add: use_def Let_def resetState_def base hasFrameBuffer_def resetCurrentStatus_def
        ex_drawPool_framed_def ex_framedPool_def ex_pool_def ex_framed_def)
  have stepD: "fst (draw (ex_drawPool_framed\<lparr>m_pools :=
        [ex_framedPool\<lparr>m_framebuffer :=
           Some (ex_framed\<lparr>m_autoUpdate := True, m_status := (?H, 0)\<rparr>)\<rparr>]\<rparr>)) = ?final"
    by (simp add: draw_def preDraw_def drawPhase_def preDraw_pool_def draw_pool_def
        isEnabled_def hasFrameBuffer_def hasModification_def updateStatus_def split_def Let_def
        ex_framedPool_def ex_pool_def ex_framed_def)
  have r: "run ex_E (Op_call ?c # ?ops) ex_drawPool_framed = Inr ?final"
    by (simp add: stepA stepB stepC stepD del: manager_step.simps(2))
  note T = shader_forces_autoUpdate
      [where pool = ex_framedPool and pf = ex_framed and st = ex_state_shader and E = ex_E
         and mtd = ex_method and dm = TriangleStrip and pool' = ?pA and s = ex_drawPool_framed
         and c = ?c and ops = ?ops and s' = ?final and sh = None]
  have t1: "\<exists>pf'. m_framebuffer ?pA = Some pf' \<and> m_autoUpdate pf' \<and> hasModification pf'"
    using T fb sh a by blast
  have t4: "\<exists>pf'. m_framebuffer (m_pools ?final ! m_currentPool ex_drawPool_framed) = Some pf' \<and>
             m_autoUpdate pf' \<and> hasModification pf'"
    using T cur fb0 sh r by blast
  have f: "m_framebuffer (m_pools ?final ! m_currentPool ex_drawPool_framed) =
             Some (ex_framed\<lparr>m_autoUpdate := True\<rparr>)"
    by (simp add: ex_drawPool_framed_def)
  have hm: "hasModification (ex_framed\<lparr>m_autoUpdate := True\<rparr>)"
    using t4 f by simp
  have eqs: "fst (m_status (ex_framed\<lparr>m_autoUpdate := True\<rparr>)) =
     snd (m_status (ex_framed\<lparr>m_autoUpdate := True\<rparr>))"
    by (simp add: ex_framed_def)
  show ?thesis
    using cur fb sh a t1 r eqs hm by simp
qed

text \<open>
  C1: in the pre-draw phase of \<^verbatim>\<open>draw()\<close> the framebuffer of pool \<open>i\<close> is bound, and
  objects are replayed into it, only when the pool is enabled and
  \<^verbatim>\<open>hasModification()\<close> is true. For an enabled framed pool, when two consecutive
  frames (select the pool, add, draw) make the same additions in the same order and
  auto-update is false at the second draw, then at the second draw the committed hash
  equals the running hash and \<^verbatim>\<open>hasModification()\<close> is false; the pre-draw phase
  neither binds the framebuffer nor replays an object into it and leaves the status as
  it is, and the draw phase composites the framebuffer, that is, the image cached
  before.
\<close>

theorem framebuffer_rebuilt_only_on_modification:
  "((FramebufferBind i \<in> set (snd (preDraw s)) \<or>
     (\<exists>obj. DrawObjectCall i obj \<in> set (snd (preDraw s)))) \<longrightarrow>
      i < length (m_pools s) \<and> isEnabled (m_pools s ! i) \<and>
      (\<exists>pf. m_framebuffer (m_pools s ! i) = Some pf \<and> hasModification pf)) \<and>
   (i < length (m_pools s0) \<and> isEnabled (m_pools s0 ! i) \<and>
    hasFrameBuffer (m_pools s0 ! i) \<and>
    run E (frame_ops i calls) s0 = Inr s1 \<and>
    run E (frame_ops i calls) (fst (draw s1)) = Inr s2 \<and>
    m_framebuffer (m_pools s2 ! i) = Some pf2 \<and> \<not> m_autoUpdate pf2 \<longrightarrow>
      \<not> hasModification pf2 \<and>
      FramebufferBind i \<notin> set (snd (preDraw s2)) \<and>
      (\<forall>obj. DrawObjectCall i obj \<notin> set (snd (preDraw s2))) \<and>
      m_framebuffer (m_pools (fst (draw s2)) ! i) = Some pf2 \<and>
      FramebufferDraw i (m_dest pf2) (m_src pf2) \<in> set (snd (draw s2)))"
proof (rule conjI; rule impI)
  assume "FramebufferBind i \<in> set (snd (preDraw s)) \<or>
     (\<exists>obj. DrawObjectCall i obj \<in> set (snd (preDraw s)))"
  then obtain e where "e \<in> set (snd (preDraw s))"
    "e = FramebufferBind i \<or> e = FramebufferRelease i \<or> (\<exists>obj. e = DrawObjectCall i obj)"
    by blast
  from preDraw_tagged [OF this]
  show "i < length (m_pools s) \<and> isEnabled (m_pools s ! i) \<and>
      (\<exists>pf. m_framebuffer (m_pools s ! i) = Some pf \<and> hasModification pf)"
    by simp
next
  assume h: "i < length (m_pools s0) \<and> isEnabled (m_pools s0 ! i) \<and>
    hasFrameBuffer (m_pools s0 ! i) \<and>
    run E (frame_ops i calls) s0 = Inr s1 \<and>
    run E (frame_ops i calls) (fst (draw s1)) = Inr s2 \<and>
    m_framebuffer (m_pools s2 ! i) = Some pf2 \<and> \<not> m_autoUpdate pf2"
  then obtain pf0 where pf0: "m_framebuffer (m_pools s0 ! i) = Some pf0"
    by (auto simp: hasFrameBuffer_def)
  have en0: "m_enabled (m_pools s0 ! i)" using h by (simp add: isEnabled_def)
  have i0: "i < length (m_pools s0)" using h by simp
  \<comment> \<open>the first frame, up to its draw\<close>
  let ?u0 = "use E (Some i) s0"
  note u0 = use_current [OF i0 pf0, of E]
  have r1: "run E (map Op_call calls) ?u0 = Inr s1"
    using h by (simp add: frame_ops_def)
  from run_calls_current [OF _ _ _ r1, of i "pf0\<lparr>m_status := (fst (m_status pf0), 0)\<rparr>"] u0 i0
  obtain pf1 where pf1:
    "length (m_pools s1) = length (m_pools s0)"
    "m_enabled (m_pools s1 ! i) = m_enabled (m_pools s0 ! i)"
    "m_framebuffer (m_pools s1 ! i) = Some pf1"
    "snd (m_status pf1) = calls_hash E calls 0"
    by auto
  \<comment> \<open>the first draw commits the running hash\<close>
  let ?d1 = "fst (draw s1)"
  let ?pfd = "pf1\<lparr>m_status := (snd (m_status pf1), snd (m_status pf1))\<rparr>"
  have i1: "i < length (m_pools s1)" using pf1(1) i0 by simp
  have en1: "m_enabled (m_pools s1 ! i)" using pf1(2) en0 by simp
  note d1 = draw_framed_pool [OF i1 en1 pf1(3)]
  have id: "i < length (m_pools ?d1)" using d1 i1 by simp
  have pfd: "m_framebuffer (m_pools ?d1 ! i) = Some ?pfd" using d1 by simp
  \<comment> \<open>the second frame, up to its draw\<close>
  let ?u1 = "use E (Some i) ?d1"
  note u1 = use_current [OF id pfd, of E]
  have r2: "run E (map Op_call calls) ?u1 = Inr s2"
    using h by (simp add: frame_ops_def)
  from run_calls_current [OF _ _ _ r2, of i "?pfd\<lparr>m_status := (fst (m_status ?pfd), 0)\<rparr>"] u1 id
  obtain pf2' where pf2':
    "length (m_pools s2) = length (m_pools ?d1)"
    "m_enabled (m_pools s2 ! i) = m_enabled (m_pools ?d1 ! i)"
    "m_framebuffer (m_pools s2 ! i) = Some pf2'"
    "fst (m_status pf2') = snd (m_status pf1)"
    "snd (m_status pf2') = calls_hash E calls 0"
    by auto
  have same: "pf2' = pf2" using pf2'(3) h by simp
  have nm: "\<not> hasModification pf2"
    using pf2'(4) pf2'(5) pf1(4) same h by (simp add: hasModification_def)
  have i2: "i < length (m_pools s2)" using pf2'(1) id by simp
  have en2: "m_enabled (m_pools s2 ! i)" using pf2'(2) d1 by simp
  have f2: "m_framebuffer (m_pools s2 ! i) = Some pf2" using h by simp
  have nb: "FramebufferBind i \<notin> set (snd (preDraw s2))"
  proof
    assume "FramebufferBind i \<in> set (snd (preDraw s2))"
    from preDraw_tagged [OF this] f2 nm show False by auto
  qed
  have nd: "\<forall>obj. DrawObjectCall i obj \<notin> set (snd (preDraw s2))"
  proof (intro allI notI)
    fix obj assume "DrawObjectCall i obj \<in> set (snd (preDraw s2))"
    from preDraw_tagged [OF this] f2 nm show False by auto
  qed
  have st: "m_framebuffer (m_pools (fst (draw s2)) ! i) = Some pf2"
  proof -
    from nm have "(snd (m_status pf2), snd (m_status pf2)) = m_status pf2"
      by (simp add: hasModification_def prod_eq_iff)
    with draw_framed_pool [OF i2 en2 f2] show ?thesis by simp
  qed
  show "\<not> hasModification pf2 \<and>
      FramebufferBind i \<notin> set (snd (preDraw s2)) \<and>
      (\<forall>obj. DrawObjectCall i obj \<notin> set (snd (preDraw s2))) \<and>
      m_framebuffer (m_pools (fst (draw s2)) ! i) = Some pf2 \<and>
      FramebufferDraw i (m_dest pf2) (m_src pf2) \<in> set (snd (draw s2))"
    using nm nb nd st draw_event_framed [OF i2 en2 f2] by simp
qed

lemma ex_content_hash: "content_hash ex_E ex_state ex_method = 14819"
proof -
  have "hash_contributions ex_E ex_state ex_method = [2, 372, 372]"
    by (simp add: hash_contributions_def ex_E_def ex_state_def ex_painter_def ex_method_def
        ex_rect_def ex_point_def DrawMethod_init_def Rect_default_def Point_default_def
        Color_white_def rect_isValid_def point_isNull_def)
  then show ?thesis
    by (simp add: content_hash_def ex_E_def)
qed

theorem framebuffer_rebuilt_only_on_modification_witness:
  "isEnabled (m_pools ex_drawPool_framed ! 0) \<and> hasFrameBuffer (m_pools ex_drawPool_framed ! 0) \<and>
   run ex_E (frame_ops 0 ex_calls) ex_drawPool_framed = Inr ex_drawPool_frame1 \<and>
   snd (preDraw ex_drawPool_frame1) =
     [FramebufferBind 0, DrawObjectCall 0 ex_object, FramebufferRelease 0] \<and>
   hasModification (ex_framed\<lparr>m_status := (0, 14820)\<rparr>) \<and>
   run ex_E (frame_ops 0 ex_calls) (fst (draw ex_drawPool_frame1)) = Inr ex_drawPool_frame2 \<and>
   m_framebuffer (m_pools ex_drawPool_frame2 ! 0) =
     Some (ex_framed\<lparr>m_status := (14820, 14820)\<rparr>) \<and>
   \<not> m_autoUpdate (ex_framed\<lparr>m_status := (14820, 14820)\<rparr>) \<and>
   \<not> hasModification (ex_framed\<lparr>m_status := (14820, 14820)\<rparr>) \<and>
   FramebufferBind 0 \<notin> set (snd (preDraw ex_drawPool_frame2)) \<and>
   DrawObjectCall 0 ex_object \<notin> set (snd (preDraw ex_drawPool_frame2)) \<and>
   FramebufferDraw 0 ex_rect ex_rect \<in> set (snd (draw ex_drawPool_frame2))"
proof -
  let ?pf1 = "ex_framed\<lparr>m_status := (0, 14820)\<rparr>"
  let ?pf2 = "ex_framed\<lparr>m_status := (14820, 14820)\<rparr>"
  have base: "baselinePoolState ex_E = ex_poolState"
    by (simp add: ex_E_def)
  have comb: "hash_combine ex_E 0 14819 = 14820"
    by (simp add: ex_E_def)
  have en: "isEnabled (m_pools ex_drawPool_framed ! 0)"
    by (simp add: isEnabled_def ex_drawPool_framed_def ex_framedPool_def ex_pool_def)
  have fr: "hasFrameBuffer (m_pools ex_drawPool_framed ! 0)"
    by (simp add: hasFrameBuffer_def ex_drawPool_framed_def ex_framedPool_def)
  have len: "0 < length (m_pools ex_drawPool_framed)"
    by (simp add: ex_drawPool_framed_def)
  have use0: "use ex_E (Some 0) ex_drawPool_framed = ex_drawPool_framed"
    by (simp add: use_def Let_def resetState_def base hasFrameBuffer_def resetCurrentStatus_def
        ex_drawPool_framed_def ex_framedPool_def ex_pool_def ex_framed_def)
  have e0: "m_objects ex_framedPool = []"
    by (simp add: ex_framedPool_def ex_pool_def)
  have shn: "shaderProgram ex_state = None"
    by (simp add: ex_state_def ex_painter_def)
  have uh1: "updateHash ex_E ex_state ex_method ex_framedPool =
      ex_framedPool\<lparr>m_framebuffer := Some ?pf1\<rparr>"
    by (simp add: updateHash_eq shn ex_content_hash comb ex_framedPool_def)
       (simp add: ex_framed_def comb)
  have add1: "add ex_E ex_state ex_method TriangleStrip ex_framedPool =
      Inr (ex_framedPool\<lparr>m_objects := [ex_object], m_framebuffer := Some ?pf1\<rparr>)"
    by (simp add: add_empty e0 uh1) (simp add: ex_framedPool_def ex_pool_def ex_object_def)
  have run1: "run ex_E (frame_ops 0 ex_calls) ex_drawPool_framed = Inr ex_drawPool_frame1"
    unfolding frame_ops_def ex_calls_def
    by (simp add: use0) (simp add: onCurrentPool_def ex_drawPool_framed_def add1
        ex_drawPool_frame1_def)
  have pre1: "snd (preDraw ex_drawPool_frame1) =
     [FramebufferBind 0, DrawObjectCall 0 ex_object, FramebufferRelease 0]"
    by (simp add: preDraw_def preDraw_pool_def isEnabled_def hasFrameBuffer_def
        hasModification_def split_def Let_def ex_drawPool_frame1_def ex_drawPool_framed_def
        ex_framedPool_def ex_pool_def ex_framed_def)
  have draw1: "fst (draw ex_drawPool_frame1) =
      ex_drawPool_framed\<lparr>m_pools := [ex_framedPool\<lparr>m_framebuffer := Some ?pf2\<rparr>]\<rparr>"
    by (simp add: draw_def preDraw_def drawPhase_def preDraw_pool_def draw_pool_def
        isEnabled_def hasFrameBuffer_def hasModification_def updateStatus_def split_def Let_def
        ex_drawPool_frame1_def ex_drawPool_framed_def ex_framedPool_def ex_pool_def ex_framed_def)
  have use1: "use ex_E (Some 0)
        (ex_drawPool_framed\<lparr>m_pools := [ex_framedPool\<lparr>m_framebuffer := Some ?pf2\<rparr>]\<rparr>) =
      ex_drawPool_framed\<lparr>m_pools :=
        [ex_framedPool\<lparr>m_framebuffer := Some (ex_framed\<lparr>m_status := (14820, 0)\<rparr>)\<rparr>]\<rparr>"
    by (simp add: use_def Let_def resetState_def base hasFrameBuffer_def resetCurrentStatus_def
        ex_drawPool_framed_def ex_framedPool_def ex_pool_def ex_framed_def)
  have add2: "add ex_E ex_state ex_method TriangleStrip
        (ex_framedPool\<lparr>m_framebuffer := Some (ex_framed\<lparr>m_status := (14820, 0)\<rparr>)\<rparr>) =
      Inr (ex_framedPool\<lparr>m_objects := [ex_object], m_framebuffer := Some ?pf2\<rparr>)"
  proof -
    have uh2: "updateHash ex_E ex_state ex_method
        (ex_framedPool\<lparr>m_framebuffer := Some (ex_framed\<lparr>m_status := (14820, 0)\<rparr>)\<rparr>) =
      ex_framedPool\<lparr>m_framebuffer := Some ?pf2\<rparr>"
      by (simp add: updateHash_eq shn ex_content_hash comb ex_framedPool_def)
    have e2: "m_objects (ex_framedPool\<lparr>m_framebuffer :=
                 Some (ex_framed\<lparr>m_status := (14820, 0)\<rparr>)\<rparr>) = []"
      by (simp add: ex_framedPool_def ex_pool_def)
    show ?thesis
      by (simp add: add_empty e2 uh2) (simp add: ex_framedPool_def ex_pool_def ex_object_def)
  qed
  have run2: "run ex_E (frame_ops 0 ex_calls) (fst (draw ex_drawPool_frame1)) =
      Inr ex_drawPool_frame2"
    unfolding frame_ops_def ex_calls_def draw1
    by (simp add: use1) (simp add: onCurrentPool_def ex_drawPool_framed_def add2
        ex_drawPool_frame2_def)
  have f2: "m_framebuffer (m_pools ex_drawPool_frame2 ! 0) = Some ?pf2"
    by (simp add: ex_drawPool_frame2_def)
  have na: "\<not> m_autoUpdate ?pf2"
    by (simp add: ex_framed_def)
  have ds: "m_dest ?pf2 = ex_rect \<and> m_src ?pf2 = ex_rect"
    by (simp add: ex_framed_def)
  note T = framebuffer_rebuilt_only_on_modification
      [where i = 0 and s = ex_drawPool_frame1 and ?s0.0 = ex_drawPool_framed and E = ex_E
         and calls = ex_calls and ?s1.0 = ex_drawPool_frame1 and ?s2.0 = ex_drawPool_frame2
         and ?pf2.0 = ?pf2]
  have f1: "m_framebuffer (m_pools ex_drawPool_frame1 ! 0) = Some ?pf1"
    by (simp add: ex_drawPool_frame1_def)
  have "\<exists>pf. m_framebuffer (m_pools ex_drawPool_frame1 ! 0) = Some pf \<and> hasModification pf"
    using T pre1 by simp
  with f1 have hm1: "hasModification ?pf1" by simp
  have second: "\<not> hasModification ?pf2 \<and>
      FramebufferBind 0 \<notin> set (snd (preDraw ex_drawPool_frame2)) \<and>
      (\<forall>obj. DrawObjectCall 0 obj \<notin> set (snd (preDraw ex_drawPool_frame2))) \<and>
      FramebufferDraw 0 (m_dest ?pf2) (m_src ?pf2) \<in> set (snd (draw ex_drawPool_frame2))"
    using T len en fr run1 run2 f2 na by blast
  show ?thesis
    using en fr run1 pre1 hm1 run2 f2 na second ds by simp
qed

section \<open>Properties of the tile cache\<close>

text \<open>
  C10: \<^verbatim>\<open>Tile::setCompletelyCoveredCache(state)\<close> with state 0 resets every per-floor
  entry of the cache to 0; with a nonzero state and a current first visible floor that
  is set (and is an index of the array) it writes exactly the entry of that floor and
  leaves every other entry as it was; with a nonzero state and the floor at the
  \<^verbatim>\<open>UINT8_MAX\<close> sentinel it changes nothing at all.
\<close>

theorem setCompletelyCoveredCache_effect:
  "(st = 0 \<longrightarrow>
      (\<exists>t'. setCompletelyCoveredCache st t = Some t' \<and>
            length (m_completelyCoveredCache t') = length (m_completelyCoveredCache t) \<and>
            (\<forall>j < length (m_completelyCoveredCache t). m_completelyCoveredCache t' ! j = 0) \<and>
            m_currentFirstVisibleFloor t' = m_currentFirstVisibleFloor t)) \<and>
   (st \<noteq> 0 \<and> m_currentFirstVisibleFloor t \<noteq> UINT8_MAX \<and>
    unat (m_currentFirstVisibleFloor t) < length (m_completelyCoveredCache t) \<longrightarrow>
      (\<exists>t'. setCompletelyCoveredCache st t = Some t' \<and>
            length (m_completelyCoveredCache t') = length (m_completelyCoveredCache t) \<and>
            m_completelyCoveredCache t' ! unat (m_currentFirstVisibleFloor t) = st \<and>
            (\<forall>j < length (m_completelyCoveredCache t).
                 j \<noteq> unat (m_currentFirstVisibleFloor t) \<longrightarrow>
                 m_completelyCoveredCache t' ! j = m_completelyCoveredCache t ! j) \<and>
            m_currentFirstVisibleFloor t' = m_currentFirstVisibleFloor t)) \<and>
   (st \<noteq> 0 \<and> m_currentFirstVisibleFloor t = UINT8_MAX \<longrightarrow>
      setCompletelyCoveredCache st t = Some t)"
  by (simp add: setCompletelyCoveredCache_def)

theorem setCompletelyCoveredCache_effect_witness:
  "setCompletelyCoveredCache 0 ex_tile = Some (ex_tile\<lparr>m_completelyCoveredCache := [0, 0, 0]\<rparr>) \<and>
   setCompletelyCoveredCache 1 ex_tile = Some (ex_tile\<lparr>m_completelyCoveredCache := [2, 1, 1]\<rparr>) \<and>
   setCompletelyCoveredCache 1 ex_tile_unset = Some ex_tile_unset"
proof -
  have a: "setCompletelyCoveredCache 0 ex_tile =
             Some (ex_tile\<lparr>m_completelyCoveredCache := [0, 0, 0]\<rparr>)"
    using setCompletelyCoveredCache_effect [of 0 ex_tile]
    by (simp add: setCompletelyCoveredCache_def ex_tile_def)
  have b: "setCompletelyCoveredCache 1 ex_tile =
             Some (ex_tile\<lparr>m_completelyCoveredCache := [2, 1, 1]\<rparr>)"
    using setCompletelyCoveredCache_effect [of 1 ex_tile]
    by (simp add: setCompletelyCoveredCache_def ex_tile_def UINT8_MAX_def)
  have c: "setCompletelyCoveredCache 1 ex_tile_unset = Some ex_tile_unset"
    using setCompletelyCoveredCache_effect [of 1 ex_tile_unset]
    by (simp add: ex_tile_unset_def UINT8_MAX_def)
  show ?thesis using a b c by simp
qed

end
